theory Spec2Isabelle
  imports Main "HOL-Library.Word" "HOL-Library.Sublist"
begin

unbundle bit_operations_syntax

section \<open>Terminal screen (internal/vt/screen.go)\<close>

subsection \<open>Data\<close>

text \<open>
  A glyph of the emulator: \<open>Char\<close> is a Go rune (int32), \<open>Mode\<close> an int16 bit set,
  \<open>FG\<close> and \<open>BG\<close> are colours (uint32).
\<close>

record Glyph =
  g_Char :: "32 word"
  g_Mode :: "16 word"
  g_FG :: "32 word"
  g_BG :: "32 word"

record Cursor =
  c_X :: int
  c_Y :: int

text \<open>
  The emulator is the library vt10x. The package reads it through \<open>Cell(x, y)\<close> and
  \<open>Cursor()\<close> only; everything else it keeps (parser state, modes) is the field
  \<open>t_internal\<close>. Its \<open>Write\<close> is a parameter of the operations below.
\<close>

record 'h Terminal =
  t_Cell :: "nat \<Rightarrow> nat \<Rightarrow> Glyph"
  t_Cursor :: Cursor
  t_internal :: 'h

type_synonym byte = "8 word"

type_synonym 'h emulator = "'h Terminal \<Rightarrow> byte list \<Rightarrow> 'h Terminal"

definition modeBold :: "16 word" where "modeBold = 4"
definition modeUnderline :: "16 word" where "modeUnderline = 2"
definition modeItalic :: "16 word" where "modeItalic = 16"

text \<open>The default colours of vt10x: \<open>1 << 24\<close> and \<open>1 << 24 + 1\<close>.\<close>

definition DefaultFG :: "32 word" where "DefaultFG = 0x1000000"
definition DefaultBG :: "32 word" where "DefaultBG = 0x1000001"

text \<open>
  \<open>ScreenUpdate.Rows\<close> and \<open>ScreenSnapshot.Rows\<close> are Go maps from row index to row
  string. Both are filled by one loop over ascending row indices that stores each key at
  most once, so a map is kept as the list of its entries in that order; \<open>map_of\<close> is
  the lookup and the length of the list is \<open>len\<close> of the map.
\<close>

record ScreenUpdate =
  u_Rows :: "(nat \<times> string) list"
  u_CursorRow :: int
  u_CursorCol :: int

record ScreenSnapshot =
  n_Rows :: "(nat \<times> string) list"
  n_Cols :: nat
  n_NumRows :: nat
  n_CursorRow :: int
  n_CursorCol :: int

record 'h Screen =
  s_term :: "'h Terminal"
  s_cols :: nat
  s_rows :: nat
  s_prevRows :: "string list"

datatype panic = IndexOutOfRange

text \<open>\<open>NewScreen\<close>: \<open>t0\<close> is the terminal that \<open>vt10x.New\<close> returns.\<close>

definition NewScreen :: "'h Terminal \<Rightarrow> nat \<Rightarrow> nat \<Rightarrow> 'h Screen" where
  "NewScreen t0 cols rows =
     \<lparr>s_term = t0, s_cols = cols, s_rows = rows, s_prevRows = replicate rows []\<rparr>"

subsection \<open>Text output: runes and decimal numbers\<close>

definition byte_char :: "byte \<Rightarrow> char" where
  "byte_char b = char_of (unat b)"

text \<open>
  \<open>strings.Builder.WriteRune\<close> appends the UTF-8 encoding of the rune as
  \<open>utf8.AppendRune\<close> computes it: runes beyond \<open>0x10FFFF\<close> (negative ones too, read as
  uint32) and surrogates are written as \<open>U+FFFD\<close>.
\<close>

definition enc3 :: "32 word \<Rightarrow> string" where
  "enc3 r = [byte_char (0xE0 OR ucast (drop_bit 12 r)),
             byte_char (0x80 OR (ucast (drop_bit 6 r) AND 0x3F)),
             byte_char (0x80 OR (ucast r AND 0x3F))]"

definition AppendRune :: "32 word \<Rightarrow> string" where
  "AppendRune r =
     (if r \<le> 0x7F then [byte_char (ucast r)]
      else if r \<le> 0x7FF then
        [byte_char (0xC0 OR ucast (drop_bit 6 r)), byte_char (0x80 OR (ucast r AND 0x3F))]
      else if r > 0x10FFFF \<or> (0xD800 \<le> r \<and> r \<le> 0xDFFF) then enc3 0xFFFD
      else if r \<le> 0xFFFF then enc3 r
      else [byte_char (0xF0 OR ucast (drop_bit 18 r)),
            byte_char (0x80 OR (ucast (drop_bit 12 r) AND 0x3F)),
            byte_char (0x80 OR (ucast (drop_bit 6 r) AND 0x3F)),
            byte_char (0x80 OR (ucast r AND 0x3F))])"

definition digit_char :: "nat \<Rightarrow> char" where
  "digit_char d = char_of (48 + d)"

text \<open>\<open>fmt.Sprintf("%d", n)\<close> for an unsigned number.\<close>

fun decimal :: "nat \<Rightarrow> string" where
  "decimal n = (if n < 10 then [digit_char n] else decimal (n div 10) @ [digit_char (n mod 10)])"

declare decimal.simps [simp del]

text \<open>\<open>strings.Join(params, ";")\<close>.\<close>

fun join_semi :: "string list \<Rightarrow> string" where
  "join_semi [] = []"
| "join_semi [p] = p"
| "join_semi (p # q # ps) = p @ '';'' @ join_semi (q # ps)"

subsection \<open>SGR parameters of a colour\<close>

definition rgb_params :: "32 word \<Rightarrow> string" where
  "rgb_params n =
     decimal (unat (drop_bit 16 n AND 0xFF)) @ '';'' @
     decimal (unat (drop_bit 8 n AND 0xFF)) @ '';'' @
     decimal (unat (n AND 0xFF))"

definition fgSGR :: "32 word \<Rightarrow> string" where
  "fgSGR c =
     (if c = DefaultFG then ''39''
      else if c < 8 then decimal (unat (30 + c))
      else if c < 16 then decimal (unat (90 + c - 8))
      else if c < 256 then ''38;5;'' @ decimal (unat c)
      else ''38;2;'' @ rgb_params c)"

definition bgSGR :: "32 word \<Rightarrow> string" where
  "bgSGR c =
     (if c = DefaultBG then ''49''
      else if c < 8 then decimal (unat (40 + c))
      else if c < 16 then decimal (unat (100 + c - 8))
      else if c < 256 then ''48;5;'' @ decimal (unat c)
      else ''48;2;'' @ rgb_params c)"

subsection \<open>Rendering one row\<close>

definition ESC :: char where "ESC = CHR 0x1B"

text \<open>A NUL character of a cell is read as a space (both loops of \<open>renderRow\<close> do it).\<close>

definition cell_rune :: "Glyph \<Rightarrow> 32 word" where
  "cell_rune cell = (if g_Char cell = 0 then 0x20 else g_Char cell)"

definition is_bold :: "Glyph \<Rightarrow> bool" where
  "is_bold cell = (g_Mode cell AND modeBold \<noteq> 0)"

definition is_italic :: "Glyph \<Rightarrow> bool" where
  "is_italic cell = (g_Mode cell AND modeItalic \<noteq> 0)"

definition is_underline :: "Glyph \<Rightarrow> bool" where
  "is_underline cell = (g_Mode cell AND modeUnderline \<noteq> 0)"

text \<open>The test of the first loop of \<open>renderRow\<close>: the cell is not a plain blank.\<close>

definition nontrivial :: "Glyph \<Rightarrow> bool" where
  "nontrivial cell =
     (cell_rune cell \<noteq> 0x20 \<or> g_FG cell \<noteq> DefaultFG \<or> g_BG cell \<noteq> DefaultBG \<or>
      g_Mode cell AND (modeBold OR modeItalic OR modeUnderline) \<noteq> 0)"

text \<open>
  The first loop, \<open>for x := s.cols - 1; x >= 0; x--\<close>: \<open>findLastCol row n\<close> scans the
  columns \<open>n - 1\<close> down to \<open>0\<close>; \<open>None\<close> is the source's \<open>lastCol = -1\<close>.
\<close>

fun findLastCol :: "(nat \<Rightarrow> Glyph) \<Rightarrow> nat \<Rightarrow> nat option" where
  "findLastCol row 0 = None"
| "findLastCol row (Suc x) = (if nontrivial (row x) then Some x else findLastCol row x)"

text \<open>
  The local variables of the second loop: the current style (\<open>curFG\<close>, \<open>curBG\<close>,
  \<open>curBold\<close>, \<open>curItalic\<close>, \<open>curUnderline\<close>), the builder \<open>b\<close> and the flag
  \<open>styled\<close>.
\<close>

record Pen =
  curFG :: "32 word"
  curBG :: "32 word"
  curBold :: bool
  curItalic :: bool
  curUnderline :: bool

record RowState =
  r_buf :: string
  r_pen :: Pen
  r_styled :: bool

definition defaultPen :: Pen where
  "defaultPen = \<lparr>curFG = DefaultFG, curBG = DefaultBG, curBold = False, curItalic = False,
     curUnderline = False\<rparr>"

definition initRow :: RowState where
  "initRow = \<lparr>r_buf = [], r_pen = defaultPen, r_styled = False\<rparr>"

text \<open>The style of a cell, as the loop stores it in the five variables.\<close>

definition cellPen :: "Glyph \<Rightarrow> Pen" where
  "cellPen cell = \<lparr>curFG = g_FG cell, curBG = g_BG cell, curBold = is_bold cell,
     curItalic = is_italic cell, curUnderline = is_underline cell\<rparr>"

definition style_differs :: "Pen \<Rightarrow> Glyph \<Rightarrow> bool" where
  "style_differs p cell =
     (g_FG cell \<noteq> curFG p \<or> g_BG cell \<noteq> curBG p \<or> is_bold cell \<noteq> curBold p \<or>
      is_italic cell \<noteq> curItalic p \<or> is_underline cell \<noteq> curUnderline p)"

definition needReset :: "Pen \<Rightarrow> Glyph \<Rightarrow> bool" where
  "needReset p cell =
     ((\<not> is_bold cell \<and> curBold p) \<or> (\<not> is_italic cell \<and> curItalic p) \<or>
      (\<not> is_underline cell \<and> curUnderline p) \<or>
      (g_FG cell = DefaultFG \<and> curFG p \<noteq> DefaultFG) \<or>
      (g_BG cell = DefaultBG \<and> curBG p \<noteq> DefaultBG))"

text \<open>The list \<open>params\<close> built for a cell whose style differs from the current one.\<close>

definition sgrParams :: "Pen \<Rightarrow> Glyph \<Rightarrow> string list" where
  "sgrParams p cell =
     (let q = (if needReset p cell then defaultPen else p) in
      (if needReset p cell then [''0''] else []) @
      (if is_bold cell \<and> \<not> curBold q then [''1''] else []) @
      (if is_italic cell \<and> \<not> curItalic q then [''3''] else []) @
      (if is_underline cell \<and> \<not> curUnderline q then [''4''] else []) @
      (if g_FG cell \<noteq> curFG q then [fgSGR (g_FG cell)] else []) @
      (if g_BG cell \<noteq> curBG q then [bgSGR (g_BG cell)] else []))"

text \<open>The body of the second loop for one cell.\<close>

definition renderCell :: "RowState \<Rightarrow> Glyph \<Rightarrow> RowState" where
  "renderCell st cell =
     (let st1 =
        (if style_differs (r_pen st) cell then
           (let params = sgrParams (r_pen st) cell;
                st2 = (if length params > 0
                       then st\<lparr>r_buf := r_buf st @ [ESC] @ ''['' @ join_semi params @ ''m'',
                                r_styled := True\<rparr>
                       else st)
            in st2\<lparr>r_pen := cellPen cell\<rparr>)
         else st)
      in st1\<lparr>r_buf := r_buf st1 @ AppendRune (cell_rune cell)\<rparr>)"

text \<open>The second loop, \<open>for x := 0; x <= lastCol; x++\<close>, over the cells it visits.\<close>

fun renderCells :: "RowState \<Rightarrow> Glyph list \<Rightarrow> RowState" where
  "renderCells st [] = st"
| "renderCells st (cell # cells) = renderCells (renderCell st cell) cells"

definition penActive :: "Pen \<Rightarrow> bool" where
  "penActive p =
     (curFG p \<noteq> DefaultFG \<or> curBG p \<noteq> DefaultBG \<or> curBold p \<or> curItalic p \<or>
      curUnderline p)"

definition finishRow :: "RowState \<Rightarrow> string" where
  "finishRow st =
     (if r_styled st \<and> penActive (r_pen st) then r_buf st @ [ESC] @ ''[0m'' else r_buf st)"

definition renderRow :: "'h Terminal \<Rightarrow> nat \<Rightarrow> nat \<Rightarrow> string" where
  "renderRow t cols y =
     (case findLastCol (\<lambda>x. t_Cell t x y) cols of
        None \<Rightarrow> []
      | Some lastCol \<Rightarrow>
          finishRow (renderCells initRow (map (\<lambda>x. t_Cell t x y) [0..<Suc lastCol])))"

subsection \<open>Write and Snapshot\<close>

text \<open>
  The row loop of \<open>Write\<close>. Indexing \<open>s.prevRows[y]\<close> beyond the slice is a run-time
  panic.
\<close>

fun writeRows ::
  "(nat \<Rightarrow> string) \<Rightarrow> nat list \<Rightarrow> (nat \<times> string) list \<Rightarrow> string list \<Rightarrow>
   panic + ((nat \<times> string) list \<times> string list)" where
  "writeRows render [] upd prev = Inr (upd, prev)"
| "writeRows render (y # ys) upd prev =
     (if y < length prev then
        (let row = render y in
         if row \<noteq> prev ! y
         then writeRows render ys (upd @ [(y, row)]) (prev[y := row])
         else writeRows render ys upd prev)
      else Inl IndexOutOfRange)"

definition Screen_Write ::
  "'h emulator \<Rightarrow> byte list \<Rightarrow> 'h Screen \<Rightarrow> panic + (ScreenUpdate option \<times> 'h Screen)" where
  "Screen_Write emu data s =
     (let t = emu (s_term s) data;
          cursor = t_Cursor t
      in case writeRows (renderRow t (s_cols s)) [0..<s_rows s] [] (s_prevRows s) of
           Inl e \<Rightarrow> Inl e
         | Inr (rs, prev) \<Rightarrow>
             Inr (if length rs = 0 then None
                  else Some \<lparr>u_Rows = rs, u_CursorRow = c_Y cursor, u_CursorCol = c_X cursor\<rparr>,
                  s\<lparr>s_term := t, s_prevRows := prev\<rparr>))"

text \<open>The row loop of \<open>Snapshot\<close>.\<close>

fun snapshotRows ::
  "(nat \<Rightarrow> string) \<Rightarrow> nat list \<Rightarrow> (nat \<times> string) list \<Rightarrow> string list \<Rightarrow>
   panic + ((nat \<times> string) list \<times> string list)" where
  "snapshotRows render [] rs prev = Inr (rs, prev)"
| "snapshotRows render (y # ys) rs prev =
     (if y < length prev
      then (let row = render y in snapshotRows render ys (rs @ [(y, row)]) (prev[y := row]))
      else Inl IndexOutOfRange)"

definition Screen_Snapshot :: "'h Screen \<Rightarrow> panic + (ScreenSnapshot \<times> 'h Screen)" where
  "Screen_Snapshot s =
     (let t = s_term s;
          cursor = t_Cursor t
      in case snapshotRows (renderRow t (s_cols s)) [0..<s_rows s] [] (s_prevRows s) of
           Inl e \<Rightarrow> Inl e
         | Inr (rs, prev) \<Rightarrow>
             Inr (\<lparr>n_Rows = rs, n_Cols = s_cols s, n_NumRows = s_rows s,
                   n_CursorRow = c_Y cursor, n_CursorCol = c_X cursor\<rparr>,
                  s\<lparr>s_prevRows := prev\<rparr>))"

text \<open>What \<open>NewScreen\<close> establishes and both operations keep: one baseline entry per row.\<close>

definition screen_ok :: "'h Screen \<Rightarrow> bool" where
  "screen_ok s = (length (s_prevRows s) = s_rows s)"

subsection \<open>Vocabulary for the row rendering rule\<close>

text \<open>
  The text the second loop appends for one cell when the current style is \<open>p\<close>: the
  style change, if the cell's style differs, and then the character.
\<close>

definition cellText :: "Pen \<Rightarrow> Glyph \<Rightarrow> string" where
  "cellText p cell =
     (if style_differs p cell then [ESC] @ ''['' @ join_semi (sgrParams p cell) @ ''m'' else []) @
     AppendRune (cell_rune cell)"

text \<open>The style in force when column \<open>x\<close> is reached: that of the cell to its left.\<close>

definition penBefore :: "(nat \<Rightarrow> Glyph) \<Rightarrow> nat \<Rightarrow> Pen" where
  "penBefore row x = (if x = 0 then defaultPen else cellPen (row (x - 1)))"

text \<open>The SGR parameters of every attribute that is active on a cell.\<close>

definition activeAttrs :: "Glyph \<Rightarrow> string list" where
  "activeAttrs cell =
     (if is_bold cell then [''1''] else []) @
     (if is_italic cell then [''3''] else []) @
     (if is_underline cell then [''4''] else []) @
     (if g_FG cell \<noteq> DefaultFG then [fgSGR (g_FG cell)] else []) @
     (if g_BG cell \<noteq> DefaultBG then [bgSGR (g_BG cell)] else [])"

fun rowText :: "Pen \<Rightarrow> Glyph list \<Rightarrow> string" where
  "rowText p [] = []"
| "rowText p (cell # cells) = cellText p cell @ rowText (cellPen cell) cells"

subsection \<open>Example terminals\<close>

definition plainGlyph :: "32 word \<Rightarrow> Glyph" where
  "plainGlyph r = \<lparr>g_Char = r, g_Mode = 0, g_FG = DefaultFG, g_BG = DefaultBG\<rparr>"

definition blankTerminal :: "unit Terminal" where
  "blankTerminal =
     \<lparr>t_Cell = (\<lambda>x y. plainGlyph 0), t_Cursor = \<lparr>c_X = 0, c_Y = 0\<rparr>, t_internal = ()\<rparr>"

text \<open>
  A toy emulator for the examples: it stores the first byte it is given in column 0 of
  row 1 and ignores an empty write.
\<close>

definition putEmulator :: "unit emulator" where
  "putEmulator t data =
     (case data of
        [] \<Rightarrow> t
      | b # _ \<Rightarrow>
          t\<lparr>t_Cell := (\<lambda>x y. if x = 0 \<and> y = 1 then plainGlyph (ucast b) else t_Cell t x y)\<rparr>)"

text \<open>Row 0 reads \<open>h\<close> in red, \<open>i\<close> in red and bold, then a plain \<open>!\<close>.\<close>

definition styledTerminal :: "unit Terminal" where
  "styledTerminal =
     \<lparr>t_Cell = (\<lambda>x y.
         if y = 0 \<and> x = 0 then \<lparr>g_Char = 0x68, g_Mode = 0, g_FG = 1, g_BG = DefaultBG\<rparr>
         else if y = 0 \<and> x = 1 then \<lparr>g_Char = 0x69, g_Mode = 4, g_FG = 1, g_BG = DefaultBG\<rparr>
         else if y = 0 \<and> x = 2 then plainGlyph 0x21
         else plainGlyph 0),
       t_Cursor = \<lparr>c_X = 3, c_Y = 0\<rparr>, t_internal = ()\<rparr>"

section \<open>Pipe manager (PipePaneManager)\<close>

subsection \<open>State\<close>

text \<open>
  Channels and tailer contexts are identified by numbers handed out from one counter.
  A stream keeps its session, its tail file, the context that \<open>cancel\<close> cancels and the
  set of subscriber channels. The screen of a stream, and the snapshot that \<open>Subscribe\<close>
  returns with the channel, are left out: no branch of the manager reads them.
\<close>

record pipeStream =
  ps_session :: string
  ps_filePath :: string
  ps_cancel :: nat
  ps_subscribers :: "nat set"

datatype ctrl_cmd = CmdPipePaneStart string string | CmdPipePaneStop string

text \<open>
  The manager together with what it acts on: the tail files on disk, the sessions whose
  pane the multiplexer pipes, the tailer contexts not yet cancelled, the closed channels
  and the commands sent over the control channel, oldest first.
\<close>

record pm_state =
  pm_streams :: "string \<rightharpoonup> pipeStream"
  pm_files :: "string set"
  pm_pipes :: "string set"
  pm_running :: "nat set"
  pm_closed :: "nat set"
  pm_issued :: "ctrl_cmd list"
  pm_next :: nat

datatype pm_error = CreatePipeFile | ActivatePipePane

datatype pm_panic = CloseOfClosedChannel

definition NewPipePaneManager :: pm_state where
  "NewPipePaneManager =
     \<lparr>pm_streams = Map.empty, pm_files = {}, pm_pipes = {}, pm_running = {}, pm_closed = {},
      pm_issued = [], pm_next = 0\<rparr>"

subsection \<open>Control channel\<close>

text \<open>
  Modelled from the spec: \<open>ControlMode.PipePaneStart\<close> and \<open>ControlMode.PipePaneStop\<close>
  (internal/tmux/commands.go is not in src). \<open>PipePaneStart\<close> issues the pipe-pane
  command with a shell command; \<open>ok\<close> is the answer of the multiplexer, and the pane is
  piped from then on exactly when the answer is a success. \<open>PipePaneStop\<close> issues
  pipe-pane with no command, after which the pane is not piped.
\<close>

definition PipePaneStart :: "string \<Rightarrow> string \<Rightarrow> bool \<Rightarrow> pm_state \<Rightarrow> bool \<times> pm_state" where
  "PipePaneStart session shellCmd ok s =
     (ok, s\<lparr>pm_issued := pm_issued s @ [CmdPipePaneStart session shellCmd],
            pm_pipes := (if ok then insert session (pm_pipes s) else pm_pipes s)\<rparr>)"

definition PipePaneStop :: "string \<Rightarrow> pm_state \<Rightarrow> pm_state" where
  "PipePaneStop session s =
     s\<lparr>pm_issued := pm_issued s @ [CmdPipePaneStop session],
       pm_pipes := pm_pipes s - {session}\<rparr>"

subsection \<open>Operations\<close>

definition pipeFilePath :: "string \<Rightarrow> string" where
  "pipeFilePath session = ''/tmp/adapter-'' @ session @ ''.pipe''"

text \<open>
  \<open>Subscribe\<close>. \<open>createOk\<close> tells whether \<open>os.OpenFile\<close> succeeds and \<open>startOk\<close> is the
  multiplexer's answer to the pipe-pane command. The new channel is made before anything
  else, as in the source.
\<close>

definition Subscribe ::
  "string \<Rightarrow> bool \<Rightarrow> bool \<Rightarrow> pm_state \<Rightarrow> (pm_error + nat) \<times> pm_state" where
  "Subscribe session createOk startOk s =
     (let ch = pm_next s;
          s0 = s\<lparr>pm_next := Suc ch\<rparr>
      in case pm_streams s0 session of
           Some stream \<Rightarrow>
             (Inr ch,
              s0\<lparr>pm_streams := (pm_streams s0)
                    (session \<mapsto> stream\<lparr>ps_subscribers := insert ch (ps_subscribers stream)\<rparr>)\<rparr>)
         | None \<Rightarrow>
             (let filePath = pipeFilePath session in
              if \<not> createOk then (Inl CreatePipeFile, s0)
              else
                (let s1 = s0\<lparr>pm_files := insert filePath (pm_files s0)\<rparr>;
                     (ok, s2) = PipePaneStart session (''cat >> '' @ filePath) startOk s1
                 in if \<not> ok
                    then (Inl ActivatePipePane, s2\<lparr>pm_files := pm_files s2 - {filePath}\<rparr>)
                    else
                      (let ctx = pm_next s2;
                           stream = \<lparr>ps_session = session, ps_filePath = filePath,
                                     ps_cancel = ctx, ps_subscribers = {ch}\<rparr>
                       in (Inr ch,
                           s2\<lparr>pm_next := Suc ctx,
                              pm_streams := (pm_streams s2)(session \<mapsto> stream),
                              pm_running := insert ctx (pm_running s2)\<rparr>)))))"

text \<open>Closing a channel that is closed already is a run-time panic.\<close>

definition closeChan :: "nat \<Rightarrow> pm_state \<Rightarrow> pm_panic + pm_state" where
  "closeChan ch s =
     (if ch \<in> pm_closed s then Inl CloseOfClosedChannel
      else Inr (s\<lparr>pm_closed := insert ch (pm_closed s)\<rparr>))"

text \<open>
  \<open>stopStream\<close>: cancel the tailer, stop the pipe, close every subscriber channel,
  remove the tail file. It also sets the subscriber set of the stream object to nil;
  both callers delete the stream from the map right after, under the same lock.
\<close>

definition stopStream :: "pipeStream \<Rightarrow> pm_state \<Rightarrow> pm_panic + pm_state" where
  "stopStream stream s =
     (let s1 = s\<lparr>pm_running := pm_running s - {ps_cancel stream}\<rparr>;
          s2 = PipePaneStop (ps_session stream) s1
      in if ps_subscribers stream \<inter> pm_closed s2 \<noteq> {} then Inl CloseOfClosedChannel
         else Inr (s2\<lparr>pm_closed := pm_closed s2 \<union> ps_subscribers stream,
                      pm_files := pm_files s2 - {ps_filePath stream}\<rparr>))"

definition Unsubscribe :: "string \<Rightarrow> nat \<Rightarrow> pm_state \<Rightarrow> pm_panic + pm_state" where
  "Unsubscribe session ch s =
     (case pm_streams s session of
        None \<Rightarrow> Inr s
      | Some stream \<Rightarrow>
          (case (if ch \<in> ps_subscribers stream then closeChan ch s else Inr s) of
             Inl e \<Rightarrow> Inl e
           | Inr s1 \<Rightarrow>
               (let stream' = stream\<lparr>ps_subscribers := ps_subscribers stream - {ch}\<rparr>;
                    s2 = s1\<lparr>pm_streams := (pm_streams s1)(session \<mapsto> stream')\<rparr>
                in if ps_subscribers stream' = {}
                   then (case stopStream stream' s2 of
                           Inl e \<Rightarrow> Inl e
                         | Inr s3 \<Rightarrow> Inr (s3\<lparr>pm_streams := (pm_streams s3)(session := None)\<rparr>))
                   else Inr s2)))"

text \<open>
  \<open>StopAll\<close> ranges over the map in an order the run time chooses; \<open>names\<close> is that
  order, an enumeration of the keys of the map.
\<close>

fun StopAll :: "string list \<Rightarrow> pm_state \<Rightarrow> pm_panic + pm_state" where
  "StopAll [] s = Inr s"
| "StopAll (name # names) s =
     (case pm_streams s name of
        None \<Rightarrow> StopAll names s
      | Some stream \<Rightarrow>
          (case stopStream stream s of
             Inl e \<Rightarrow> Inl e
           | Inr s1 \<Rightarrow> StopAll names (s1\<lparr>pm_streams := (pm_streams s1)(name := None)\<rparr>)))"

text \<open>The states the manager can be in: any sequence of calls from a new manager.\<close>

inductive reachable :: "pm_state \<Rightarrow> bool" where
  r_new: "reachable NewPipePaneManager"
| r_subscribe: "reachable s \<Longrightarrow> reachable (snd (Subscribe session createOk startOk s))"
| r_unsubscribe: "reachable s \<Longrightarrow> Unsubscribe session ch s = Inr s' \<Longrightarrow> reachable s'"
| r_stopAll:
    "reachable s \<Longrightarrow> distinct names \<Longrightarrow> set names = dom (pm_streams s) \<Longrightarrow>
     StopAll names s = Inr s' \<Longrightarrow> reachable s'"

text \<open>What every reachable state satisfies.\<close>

definition pm_inv :: "pm_state \<Rightarrow> bool" where
  "pm_inv s =
     (pm_pipes s = dom (pm_streams s) \<and>
      (\<forall>c \<in> pm_closed s. c < pm_next s) \<and>
      (\<forall>name stream. pm_streams s name = Some stream \<longrightarrow>
         ps_session stream = name \<and> ps_subscribers stream \<noteq> {} \<and>
         ps_subscribers stream \<inter> pm_closed s = {} \<and>
         (\<forall>c \<in> ps_subscribers stream. c < pm_next s)) \<and>
      (\<forall>name name' stream stream'.
         name \<noteq> name' \<and> pm_streams s name = Some stream \<and> pm_streams s name' = Some stream' \<longrightarrow>
         ps_subscribers stream \<inter> ps_subscribers stream' = {}))"

section \<open>Lifecycle broadcast (wsadapter Server, wsbase filters)\<close>

text \<open>
  A compiled regular expression is kept as its \<open>MatchString\<close>; \<open>None\<close> is the nil
  pointer. \<open>cl_sent\<close> lists the messages handed to \<open>SendText\<close> of the client, oldest
  first.
\<close>

type_synonym regexp = "string \<Rightarrow> bool"

record Client =
  cl_agentSub :: bool
  cl_includeSessionFilter :: "regexp option"
  cl_excludeSessionFilter :: "regexp option"
  cl_sent :: "string list"

definition PassesFilter :: "string \<Rightarrow> regexp option \<Rightarrow> regexp option \<Rightarrow> bool" where
  "PassesFilter name include exclude =
     (if (case include of None \<Rightarrow> False | Some re \<Rightarrow> \<not> re name) then False
      else if (case exclude of None \<Rightarrow> False | Some re \<Rightarrow> re name) then False
      else True)"

definition SendText :: "string \<Rightarrow> Client \<Rightarrow> Client" where
  "SendText data c = c\<lparr>cl_sent := cl_sent c @ [data]\<rparr>"

text \<open>
  The server: its clients, in the order in which the loop of the broadcast meets them
  (a Go set, so the order is the run time's), and the number \<open>registry.Count()\<close>
  returns.
\<close>

record Server =
  srv_clients :: "Client list"
  srv_count :: nat

text \<open>The body of the loop over the clients.\<close>

definition deliver :: "string option \<Rightarrow> string \<Rightarrow> string \<Rightarrow> Client \<Rightarrow> Client" where
  "deliver countData agentName msg client =
     (if \<not> cl_agentSub client then client
      else
        (let c1 = (case countData of None \<Rightarrow> client | Some d \<Rightarrow> SendText d client)
         in if PassesFilter agentName (cl_includeSessionFilter client)
                 (cl_excludeSessionFilter client)
            then SendText msg c1 else c1))"

text \<open>
  \<open>BroadcastToAgentSubscribers\<close>. \<open>marshal\<close> is \<open>json.Marshal\<close> on the agents-count
  response for a total; \<open>None\<close> is its error, on which the function returns at once.
\<close>

definition BroadcastToAgentSubscribers ::
  "(nat \<Rightarrow> string option) \<Rightarrow> string \<Rightarrow> string \<Rightarrow> string \<Rightarrow> Server \<Rightarrow> Server" where
  "BroadcastToAgentSubscribers marshal agentName eventType msg s =
     (if eventType \<noteq> ''agent-updated'' then
        (case marshal (srv_count s) of
           None \<Rightarrow> s
         | Some countData \<Rightarrow>
             s\<lparr>srv_clients := map (deliver (Some countData) agentName msg) (srv_clients s)\<rparr>)
      else s\<lparr>srv_clients := map (deliver None agentName msg) (srv_clients s)\<rparr>)"

section \<open>Command line of the adapter (main.go)\<close>

text \<open>
  The flags \<open>main\<close> registers, in the order of the source, each with its default value
  as a string. \<open>gtDirDefault\<close> is \<open>filepath.Join(os.Getenv("HOME"), "gt")\<close>.
\<close>

definition mainFlags :: "string \<Rightarrow> (string \<times> string) list" where
  "mainFlags gtDirDefault =
     [(''gt-dir'', gtDirDefault), (''port'', ''8080''), (''auth-token'', []),
      (''allowed-origins'', ''localhost:*''), (''debug-serve-dir'', [])]"

text \<open>The flags of the sibling command tmux-converter (src/unnamed/part_001).\<close>

definition converterFlags :: "(string \<times> string) list" where
  "converterFlags =
     [(''work-dir'', []), (''gt-dir'', []), (''listen'', '':8081''), (''debug-serve-dir'', [])]"

text \<open>
  What \<open>flag.Parse\<close> does with a flag name it meets on the command line: a name that is
  not registered ends the program with "flag provided but not defined"; a registered
  one has the default returned here until a value is given.
\<close>

datatype flag_error = FlagNotDefined string

definition lookupFlag :: "(string \<times> string) list \<Rightarrow> string \<Rightarrow> flag_error + string" where
  "lookupFlag flags name =
     (case map_of flags name of None \<Rightarrow> Inl (FlagNotDefined name) | Some d \<Rightarrow> Inr d)"

section \<open>Workdir filter of the registry\<close>

text \<open>\<open>strings.HasPrefix\<close>.\<close>

definition HasPrefix :: "'a list \<Rightarrow> 'a list \<Rightarrow> bool" where
  "HasPrefix s p = (length p \<le> length s \<and> take (length p) s = p)"

text \<open>
  Modelled from the spec: the workdir filter that the scan of the registry applies to the
  workDir of a pane (internal/agents/registry.go is not in src; its tests are). Spec 4.3:
  empty passes all; otherwise the workDir equals the filter or has the filter followed
  by the path separator as a prefix.
\<close>

definition passesWorkDirFilter :: "string \<Rightarrow> string \<Rightarrow> bool" where
  "passesWorkDirFilter workDirFilter workDir =
     (if workDirFilter = [] then True
      else workDir = workDirFilter \<or> HasPrefix workDir (workDirFilter @ ''/''))"

section \<open>Convenience wrappers of the control channel\<close>

text \<open>
  Modelled from the spec: the error taxonomy of the control channel and its convenience
  wrappers (internal/tmux/commands.go is not in src; its tests are). Each wrapper is
  given the reply of \<open>Execute\<close>: an error of the multiplexer or the output. Spec 4.1
  and 7: the wrapper concerned turns "session/pane not found", "unknown variable" and
  "nothing to capture" into an empty result; all other errors propagate. The value of a
  variable is what follows the first \<open>=\<close> of the output, as the test of
  \<open>ShowEnvironment\<close> has it.
\<close>

datatype mux_error =
  SessionOrPaneNotFound | UnknownVariable | NothingToCapture | NoAlternateScreen |
  OtherMuxError string

definition HasSession :: "mux_error + string \<Rightarrow> mux_error + bool" where
  "HasSession reply =
     (case reply of
        Inr out \<Rightarrow> Inr True
      | Inl SessionOrPaneNotFound \<Rightarrow> Inr False
      | Inl e \<Rightarrow> Inl e)"

definition ShowEnvironment :: "mux_error + string \<Rightarrow> mux_error + string" where
  "ShowEnvironment reply =
     (case reply of
        Inr out \<Rightarrow> Inr (drop (Suc (length (takeWhile (\<lambda>c. c \<noteq> CHR ''='') out))) out)
      | Inl UnknownVariable \<Rightarrow> Inr []
      | Inl e \<Rightarrow> Inl e)"

definition CapturePaneHistory :: "mux_error + string \<Rightarrow> mux_error + string" where
  "CapturePaneHistory reply =
     (case reply of
        Inr out \<Rightarrow> Inr out
      | Inl NothingToCapture \<Rightarrow> Inr []
      | Inl e \<Rightarrow> Inl e)"

text \<open>
  Modelled from the spec: \<open>CapturePaneVisible\<close> "tries alternate-screen capture first,
  falls back if unsupported" (spec 4.1). \<open>altReply\<close> is the reply to the
  alternate-screen capture and \<open>plainReply\<close> the reply to the plain capture, which is
  issued only on the fallback. \<open>TestCapturePaneVisibleFallsBackWhenNoAlternateScreen\<close>
  fixes the fallback on "no alternate screen".
\<close>

definition CapturePaneVisible ::
  "mux_error + string \<Rightarrow> mux_error + string \<Rightarrow> mux_error + string" where
  "CapturePaneVisible altReply plainReply =
     (case altReply of
        Inr out \<Rightarrow> Inr out
      | Inl NoAlternateScreen \<Rightarrow> plainReply
      | Inl e \<Rightarrow> Inl e)"

text \<open>
  Modelled from the spec: the remaining wrappers of spec 4.1 (\<open>ListSessions\<close>,
  \<open>GetPaneInfo\<close>, \<open>PipePaneStart\<close>, \<open>PipePaneStop\<close>, \<open>SendLiteral\<close>,
  \<open>SendKeyName\<close>, \<open>SendRawBytes\<close>, \<open>ResizePane\<close>) hand an error of \<open>Execute\<close> to
  the caller as it is; \<open>parse\<close> is what the wrapper makes of the output.
\<close>

definition plainWrapper :: "(string \<Rightarrow> 'a) \<Rightarrow> mux_error + string \<Rightarrow> mux_error + 'a" where
  "plainWrapper parse reply =
     (case reply of
        Inl e \<Rightarrow> Inl e
      | Inr out \<Rightarrow> Inr (parse out))"

section \<open>Paste payload of an uploaded file\<close>

text \<open>
  Modelled from the spec: \<open>IsUTF8Text\<close>, \<open>IsTextLike\<close>, \<open>BuildServerPastePath\<close> and
  \<open>BuildPastePayload\<close> of package agentio, and the constant \<open>maxInlinePasteBytes\<close>
  (the package is not in src; its tests, src/unnamed/part_004, are). Spec 4.5, step 4
  and "UTF-8-cleanness check": content is text-like when its MIME type is in the list of
  recognized text types or its bytes are UTF-8-clean. The list is not in src and is the
  parameter \<open>textMimes\<close>. Two points are fixed by the tests and not said by the spec:
  a pasted path is followed by one space (\<open>TestBuildPastePayload\<close>), and
  \<open>BuildServerPastePath\<close> returns the relative path bare
  (\<open>TestBuildServerPastePath\<close>), the \<open>./\<close> of the spec being put in front of it for
  the paste. Paths are clean and absolute, with \<open>/\<close> as separator.
\<close>

definition maxInlinePasteBytes :: nat where
  "maxInlinePasteBytes = 256 * 1024"

definition cont :: "byte \<Rightarrow> bool" where
  "cont b = (0x80 \<le> b \<and> b \<le> 0xBF)"

text \<open>Well-formed UTF-8, as \<open>utf8.Valid\<close> decides it.\<close>

fun utf8_Valid :: "byte list \<Rightarrow> bool" where
  "utf8_Valid [] = True"
| "utf8_Valid (b0 # bs) =
     (if b0 \<le> 0x7F then utf8_Valid bs
      else if 0xC2 \<le> b0 \<and> b0 \<le> 0xDF then
        (case bs of b1 # r \<Rightarrow> cont b1 \<and> utf8_Valid r | _ \<Rightarrow> False)
      else if 0xE0 \<le> b0 \<and> b0 \<le> 0xEF then
        (case bs of
           b1 # b2 # r \<Rightarrow>
             (if b0 = 0xE0 then 0xA0 \<le> b1 \<and> b1 \<le> 0xBF
              else if b0 = 0xED then 0x80 \<le> b1 \<and> b1 \<le> 0x9F
              else cont b1) \<and> cont b2 \<and> utf8_Valid r
         | _ \<Rightarrow> False)
      else if 0xF0 \<le> b0 \<and> b0 \<le> 0xF4 then
        (case bs of
           b1 # b2 # b3 # r \<Rightarrow>
             (if b0 = 0xF0 then 0x90 \<le> b1 \<and> b1 \<le> 0xBF
              else if b0 = 0xF4 then 0x80 \<le> b1 \<and> b1 \<le> 0x8F
              else cont b1) \<and> cont b2 \<and> cont b3 \<and> utf8_Valid r
         | _ \<Rightarrow> False)
      else False)"

definition controlByte :: "byte \<Rightarrow> bool" where
  "controlByte b = (b < 0x20 \<and> b \<noteq> 9 \<and> b \<noteq> 10 \<and> b \<noteq> 13)"

definition IsUTF8Text :: "byte list \<Rightarrow> bool" where
  "IsUTF8Text data =
     (let sample = take 4096 data
      in list_all (\<lambda>b. \<not> controlByte b) sample \<and> utf8_Valid sample)"

definition IsTextLike :: "string list \<Rightarrow> string \<Rightarrow> byte list \<Rightarrow> bool" where
  "IsTextLike textMimes mimeType data = (mimeType \<in> set textMimes \<or> IsUTF8Text data)"

definition bytes_of :: "string \<Rightarrow> byte list" where
  "bytes_of s = map of_char s"

definition insideWorkDir :: "string \<Rightarrow> string \<Rightarrow> bool" where
  "insideWorkDir workDir savedPath = (workDir \<noteq> [] \<and> HasPrefix savedPath (workDir @ ''/''))"

definition BuildServerPastePath :: "string \<Rightarrow> string \<Rightarrow> string" where
  "BuildServerPastePath workDir savedPath =
     (if insideWorkDir workDir savedPath then drop (Suc (length workDir)) savedPath
      else savedPath)"

text \<open>The path argument of the paste: \<open>./relative\<close> inside the workDir, else absolute.\<close>

definition pastePathFor :: "string \<Rightarrow> string \<Rightarrow> string" where
  "pastePathFor workDir savedPath =
     (if insideWorkDir workDir savedPath then ''./'' @ BuildServerPastePath workDir savedPath
      else savedPath)"

definition BuildPastePayload ::
  "string list \<Rightarrow> string \<Rightarrow> string \<Rightarrow> string \<Rightarrow> byte list \<Rightarrow> byte list" where
  "BuildPastePayload textMimes savedPath pastePath mimeType data =
     (if HasPrefix mimeType ''image/'' then bytes_of (savedPath @ '' '')
      else if IsTextLike textMimes mimeType data \<and> length data \<le> maxInlinePasteBytes
        then data
      else bytes_of (pastePath @ '' ''))"

section \<open>Example states\<close>

text \<open>A manager after one successful \<open>Subscribe\<close> for session \<open>a\<close>.\<close>

definition oneSubscriber :: pm_state where
  "oneSubscriber = snd (Subscribe ''a'' True True NewPipePaneManager)"

text \<open>
  A server with three clients: one not subscribed to lifecycle events, one subscribed
  with an include filter for names that start with \<open>hq-\<close>, one subscribed with no filter.
\<close>

definition exampleMarshal :: "nat \<Rightarrow> string option" where
  "exampleMarshal n = Some (''agents-count '' @ decimal n)"

definition exampleServer :: Server where
  "exampleServer =
     \<lparr>srv_clients =
        [\<lparr>cl_agentSub = False, cl_includeSessionFilter = None, cl_excludeSessionFilter = None,
          cl_sent = []\<rparr>,
         \<lparr>cl_agentSub = True, cl_includeSessionFilter = Some (prefix ''hq-''),
          cl_excludeSessionFilter = None, cl_sent = []\<rparr>,
         \<lparr>cl_agentSub = True, cl_includeSessionFilter = None, cl_excludeSessionFilter = None,
          cl_sent = []\<rparr>],
      srv_count = 3\<rparr>"

section \<open>Properties of the screen\<close>

lemma writeRows_closed:
  "distinct ys \<Longrightarrow> \<forall>y\<in>set ys. y < length prev \<Longrightarrow>
   \<exists>prev'. writeRows render ys upd prev =
       Inr (upd @ map (\<lambda>y. (y, render y)) (filter (\<lambda>y. render y \<noteq> prev ! y) ys), prev') \<and>
     length prev' = length prev \<and>
     (\<forall>y < length prev. prev' ! y = (if y \<in> set ys then render y else prev ! y))"
proof (induction ys arbitrary: upd prev)
  case Nil
  then show ?case by simp
next
  case (Cons y ys)
  from Cons.prems have y: "y < length prev" and ny: "y \<notin> set ys" and d: "distinct ys"
    and b: "\<forall>z\<in>set ys. z < length prev" by auto
  show ?case
  proof (cases "render y = prev ! y")
    case True
    from Cons.IH [OF d b, of upd] obtain prev' where
      h: "writeRows render ys upd prev =
            Inr (upd @ map (\<lambda>y. (y, render y)) (filter (\<lambda>y. render y \<noteq> prev ! y) ys), prev')"
         "length prev' = length prev"
         "\<forall>z < length prev. prev' ! z = (if z \<in> set ys then render z else prev ! z)"
      by blast
    show ?thesis using True y h by auto
  next
    case False
    let ?p = "prev[y := render y]"
    have b': "\<forall>z\<in>set ys. z < length ?p" using b by simp
    have unch: "\<And>z. z \<in> set ys \<Longrightarrow> ?p ! z = prev ! z"
      using ny by (metis nth_list_update_neq)
    have same: "filter (\<lambda>z. render z \<noteq> ?p ! z) ys = filter (\<lambda>z. render z \<noteq> prev ! z) ys"
      by (rule filter_cong) (simp_all add: unch)
    from Cons.IH [OF d b', of "upd @ [(y, render y)]"] obtain prev' where
      h: "writeRows render ys (upd @ [(y, render y)]) ?p =
            Inr ((upd @ [(y, render y)]) @
                 map (\<lambda>y. (y, render y)) (filter (\<lambda>z. render z \<noteq> ?p ! z) ys), prev')"
         "length prev' = length ?p"
         "\<forall>z < length ?p. prev' ! z = (if z \<in> set ys then render z else ?p ! z)"
      by blast
    show ?thesis using False y h same by (auto simp: nth_list_update)
  qed
qed

lemma snapshotRows_closed:
  "distinct ys \<Longrightarrow> \<forall>y\<in>set ys. y < length prev \<Longrightarrow>
   \<exists>prev'. snapshotRows render ys rs prev = Inr (rs @ map (\<lambda>y. (y, render y)) ys, prev') \<and>
     length prev' = length prev \<and>
     (\<forall>y < length prev. prev' ! y = (if y \<in> set ys then render y else prev ! y))"
proof (induction ys arbitrary: rs prev)
  case Nil
  then show ?case by simp
next
  case (Cons y ys)
  from Cons.prems have y: "y < length prev" and ny: "y \<notin> set ys" and d: "distinct ys"
    and b: "\<forall>z\<in>set ys. z < length prev" by auto
  let ?p = "prev[y := render y]"
  have b': "\<forall>z\<in>set ys. z < length ?p" using b by simp
  from Cons.IH [OF d b', of "rs @ [(y, render y)]"] obtain prev' where
    h: "snapshotRows render ys (rs @ [(y, render y)]) ?p =
          Inr ((rs @ [(y, render y)]) @ map (\<lambda>y. (y, render y)) ys, prev')"
       "length prev' = length ?p"
       "\<forall>z < length ?p. prev' ! z = (if z \<in> set ys then render z else ?p ! z)"
    by blast
  show ?case using y h by (auto simp: nth_list_update)
qed


lemma screen_ok_NewScreen: "screen_ok (NewScreen t0 cols rows)"
  by (simp add: screen_ok_def NewScreen_def)

lemma screen_ok_Write:
  assumes "screen_ok s"
  shows "\<exists>upd s'. Screen_Write emu data s = Inr (upd, s') \<and> screen_ok s'"
proof -
  have "\<forall>y\<in>set [0..<s_rows s]. y < length (s_prevRows s)"
    using assms by (simp add: screen_ok_def)
  from writeRows_closed [OF distinct_upt this, of "renderRow (emu (s_term s) data) (s_cols s)" "[]"]
  show ?thesis
    using assms by (auto simp: Screen_Write_def Let_def screen_ok_def)
qed

lemma screen_ok_Snapshot:
  assumes "screen_ok s"
  shows "\<exists>snap s'. Screen_Snapshot s = Inr (snap, s') \<and> screen_ok s'"
proof -
  have "\<forall>y\<in>set [0..<s_rows s]. y < length (s_prevRows s)"
    using assms by (simp add: screen_ok_def)
  from snapshotRows_closed [OF distinct_upt this, of "renderRow (s_term s) (s_cols s)" "[]"]
  show ?thesis
    using assms by (auto simp: Screen_Snapshot_def Let_def screen_ok_def)
qed

lemma map_of_rendered:
  "map_of (map (\<lambda>y. (y, f y)) ys) y = (if y \<in> set ys then Some (f y) else None)"
  by (induction ys) auto

lemma nth_eq_map_upt:
  "length xs = n \<Longrightarrow> \<forall>y<n. xs ! y = f y \<Longrightarrow> xs = map f [0..<n]"
  by (auto intro: nth_equalityI)

text \<open>
  Claim C2. For every byte sequence fed to \<open>Screen.Write\<close> (and whatever the emulator
  makes of it), on a screen with one baseline entry per row the call returns without a
  panic, and with \<open>fresh y\<close> the row \<open>y\<close> as rendered after the write: the update holds
  exactly the rows \<open>y\<close> whose fresh string differs from the baseline, each with its
  fresh string, and carries the cursor of the emulator; the baseline becomes the fresh
  string on those rows and stays as it was on the others; and the result is nil exactly
  when no row differs.
\<close>

theorem Write_update_is_changed_rows:
  assumes ok: "screen_ok s"
  shows "\<exists>upd s'. Screen_Write emu data s = Inr (upd, s') \<and>
     (let t = emu (s_term s) data;
          fresh = renderRow t (s_cols s);
          differs = (\<lambda>y. y < s_rows s \<and> fresh y \<noteq> s_prevRows s ! y)
      in (upd = None \<longleftrightarrow> (\<forall>y. \<not> differs y)) \<and>
         (\<forall>u. upd = Some u \<longrightarrow>
            (\<forall>y. map_of (u_Rows u) y = (if differs y then Some (fresh y) else None)) \<and>
            u_CursorRow u = c_Y (t_Cursor t) \<and> u_CursorCol u = c_X (t_Cursor t)) \<and>
         s_term s' = t \<and> s_cols s' = s_cols s \<and> s_rows s' = s_rows s \<and>
         length (s_prevRows s') = s_rows s \<and>
         (\<forall>y < s_rows s. s_prevRows s' ! y = (if differs y then fresh y else s_prevRows s ! y)))"
proof -
  define t where "t = emu (s_term s) data"
  define fresh where "fresh = renderRow t (s_cols s)"
  define changed where "changed = filter (\<lambda>y. fresh y \<noteq> s_prevRows s ! y) [0..<s_rows s]"
  have len: "length (s_prevRows s) = s_rows s" using ok by (simp add: screen_ok_def)
  have bnd: "\<forall>y\<in>set [0..<s_rows s]. y < length (s_prevRows s)" using len by simp
  from writeRows_closed [OF distinct_upt bnd, of fresh "[]"] obtain prev' where
    run: "writeRows fresh [0..<s_rows s] [] (s_prevRows s) =
            Inr (map (\<lambda>y. (y, fresh y)) changed, prev')"
    and len': "length prev' = length (s_prevRows s)"
    and nth': "\<forall>y < length (s_prevRows s).
                 prev' ! y = (if y \<in> set [0..<s_rows s] then fresh y else s_prevRows s ! y)"
    unfolding changed_def by auto
  have mem: "\<And>y. y \<in> set changed \<longleftrightarrow> y < s_rows s \<and> fresh y \<noteq> s_prevRows s ! y"
    by (auto simp: changed_def)
  have empty: "changed = [] \<longleftrightarrow> (\<forall>y. \<not> (y < s_rows s \<and> fresh y \<noteq> s_prevRows s ! y))"
    unfolding changed_def filter_empty_conv by auto
  show ?thesis
    using run len len' nth' empty mem
    by (simp add: Screen_Write_def Let_def t_def [symmetric] fresh_def [symmetric]
        map_of_rendered)
qed

theorem Write_update_is_changed_rows_witness:
  "screen_ok (NewScreen blankTerminal 2 2) \<and>
   (\<exists>u s'. Screen_Write putEmulator [0x62] (NewScreen blankTerminal 2 2) = Inr (Some u, s') \<and>
      map_of (u_Rows u) 1 = Some ''b'' \<and> map_of (u_Rows u) 0 = None \<and>
      s_prevRows s' ! 1 = ''b'' \<and> s_prevRows s' ! 0 = []) \<and>
   (\<exists>s'. Screen_Write putEmulator [] (NewScreen blankTerminal 2 2) = Inr (None, s'))"
proof -
  define s0 where "s0 = NewScreen blankTerminal 2 2"
  have ok: "screen_ok s0" by (simp add: s0_def screen_ok_def NewScreen_def)
  have dims: "s_rows s0 = 2" "s_cols s0 = 2" "s_prevRows s0 = [[], []]" "s_term s0 = blankTerminal"
    by (simp_all add: s0_def NewScreen_def numeral_2_eq_2)
  have f1: "renderRow (putEmulator blankTerminal [0x62]) 2 1 = ''b''" by code_simp
  have f0: "renderRow (putEmulator blankTerminal [0x62]) 2 0 = []" by code_simp
  have g1: "renderRow (putEmulator blankTerminal []) 2 1 = []" by code_simp
  have g0: "renderRow (putEmulator blankTerminal []) 2 0 = []" by code_simp
  from Write_update_is_changed_rows [OF ok, of putEmulator "[0x62]", unfolded Let_def dims]
  obtain upd s' where
    w: "Screen_Write putEmulator [0x62] s0 = Inr (upd, s')"
    and none: "upd = None \<longleftrightarrow>
      (\<forall>y. \<not> (y < 2 \<and> renderRow (putEmulator blankTerminal [0x62]) 2 y \<noteq> [[], []] ! y))"
    and some: "\<forall>u. upd = Some u \<longrightarrow>
      (\<forall>y. map_of (u_Rows u) y =
         (if y < 2 \<and> renderRow (putEmulator blankTerminal [0x62]) 2 y \<noteq> [[], []] ! y
          then Some (renderRow (putEmulator blankTerminal [0x62]) 2 y) else None)) \<and>
      u_CursorRow u = c_Y (t_Cursor (putEmulator blankTerminal [0x62])) \<and>
      u_CursorCol u = c_X (t_Cursor (putEmulator blankTerminal [0x62]))"
    and prev: "\<forall>y < 2. s_prevRows s' ! y =
      (if y < 2 \<and> renderRow (putEmulator blankTerminal [0x62]) 2 y \<noteq> [[], []] ! y
       then renderRow (putEmulator blankTerminal [0x62]) 2 y else [[], []] ! y)"
    by blast
  have "upd \<noteq> None"
    unfolding none using f1 by (auto intro: exI [of _ 1])
  then obtain u where u: "upd = Some u" by blast
  from some u have rows: "\<And>y. map_of (u_Rows u) y =
         (if y < 2 \<and> renderRow (putEmulator blankTerminal [0x62]) 2 y \<noteq> [[], []] ! y
          then Some (renderRow (putEmulator blankTerminal [0x62]) 2 y) else None)"
    by blast
  have r1: "map_of (u_Rows u) 1 = Some ''b''" unfolding rows using f1 by simp
  have r0: "map_of (u_Rows u) 0 = None" unfolding rows using f0 by simp
  have p1: "s_prevRows s' ! 1 = ''b''" using prev [THEN spec, of 1] f1 by simp
  have p0: "s_prevRows s' ! 0 = []" using prev [THEN spec, of 0] f0 by simp
  from Write_update_is_changed_rows [OF ok, of putEmulator "[]", unfolded Let_def dims]
  obtain upd2 s2 where
    w2: "Screen_Write putEmulator [] s0 = Inr (upd2, s2)"
    and none2: "upd2 = None \<longleftrightarrow>
      (\<forall>y. \<not> (y < 2 \<and> renderRow (putEmulator blankTerminal []) 2 y \<noteq> [[], []] ! y))"
    by blast
  have "renderRow (putEmulator blankTerminal []) 2 y = [[], []] ! y" if "y < 2" for y :: nat
  proof -
    from that consider "y = 0" | "y = 1" by linarith
    then show ?thesis using g0 g1 by cases simp_all
  qed
  then have "upd2 = None"
    unfolding none2 by blast
  then have quiet: "\<exists>s'. Screen_Write putEmulator [] s0 = Inr (None, s')"
    using w2 by blast
  have loud: "\<exists>u s'. Screen_Write putEmulator [0x62] s0 = Inr (Some u, s') \<and>
      map_of (u_Rows u) 1 = Some ''b'' \<and> map_of (u_Rows u) 0 = None \<and>
      s_prevRows s' ! 1 = ''b'' \<and> s_prevRows s' ! 0 = []"
    using w u r1 r0 p1 p0 by blast
  show ?thesis
    using ok loud quiet unfolding s0_def by blast
qed

text \<open>
  Claim C3. On every screen with one baseline entry per row, \<open>Snapshot\<close> returns all rows
  as rendered, the dimensions and the cursor; a second \<open>Snapshot\<close> right after it returns
  the same snapshot and leaves the screen as the first left it; the baseline is then the
  rendered rows, so that a \<open>Write\<close> right after the snapshot which leaves every rendered
  row as it was returns nil.
\<close>

theorem Snapshot_twice_then_quiet_Write:
  assumes ok: "screen_ok s"
  shows "\<exists>snap s1. Screen_Snapshot s = Inr (snap, s1) \<and>
     Screen_Snapshot s1 = Inr (snap, s1) \<and>
     (\<forall>y. map_of (n_Rows snap) y =
        (if y < s_rows s then Some (renderRow (s_term s) (s_cols s) y) else None)) \<and>
     n_Cols snap = s_cols s \<and> n_NumRows snap = s_rows s \<and>
     n_CursorRow snap = c_Y (t_Cursor (s_term s)) \<and>
     n_CursorCol snap = c_X (t_Cursor (s_term s)) \<and>
     s_prevRows s1 = map (renderRow (s_term s) (s_cols s)) [0..<s_rows s] \<and>
     (\<forall>emu data.
        (\<forall>y < s_rows s. renderRow (emu (s_term s1) data) (s_cols s) y =
                        renderRow (s_term s1) (s_cols s) y) \<longrightarrow>
        (\<exists>s2. Screen_Write emu data s1 = Inr (None, s2)))"
proof -
  define fresh where "fresh = renderRow (s_term s) (s_cols s)"
  define rs where "rs = map (\<lambda>y. (y, fresh y)) [0..<s_rows s]"
  have len: "length (s_prevRows s) = s_rows s" using ok by (simp add: screen_ok_def)
  have bnd: "\<forall>y\<in>set [0..<s_rows s]. y < length (s_prevRows s)" using len by simp
  from snapshotRows_closed [OF distinct_upt bnd, of fresh "[]"] obtain prev' where
    run: "snapshotRows fresh [0..<s_rows s] [] (s_prevRows s) = Inr (rs, prev')"
    and len': "length prev' = s_rows s"
    and nth': "\<forall>y < s_rows s. prev' ! y = fresh y"
    unfolding rs_def using len by auto
  have prev': "prev' = map fresh [0..<s_rows s]"
    using len' nth' by (rule nth_eq_map_upt)
  define snap where "snap = \<lparr>n_Rows = rs, n_Cols = s_cols s, n_NumRows = s_rows s,
    n_CursorRow = c_Y (t_Cursor (s_term s)), n_CursorCol = c_X (t_Cursor (s_term s))\<rparr>"
  define s1 where "s1 = s\<lparr>s_prevRows := prev'\<rparr>"
  have first: "Screen_Snapshot s = Inr (snap, s1)"
    using run by (simp add: Screen_Snapshot_def Let_def fresh_def [symmetric] snap_def s1_def)
  have bnd1: "\<forall>y\<in>set [0..<s_rows s]. y < length prev'" using len' by simp
  from snapshotRows_closed [OF distinct_upt bnd1, of fresh "[]"] obtain prev'' where
    run2: "snapshotRows fresh [0..<s_rows s] [] prev' = Inr (rs, prev'')"
    and len2: "length prev'' = s_rows s"
    and nth2: "\<forall>y < s_rows s. prev'' ! y = fresh y"
    unfolding rs_def using len' by auto
  have "prev'' = map fresh [0..<s_rows s]"
    using len2 nth2 by (rule nth_eq_map_upt)
  then have same: "prev'' = prev'" using prev' by simp
  have second: "Screen_Snapshot s1 = Inr (snap, s1)"
    using run2 same
    by (simp add: Screen_Snapshot_def Let_def fresh_def [symmetric] snap_def s1_def)
  have quiet: "\<exists>s2. Screen_Write emu data s1 = Inr (None, s2)"
    if still: "\<forall>y < s_rows s. renderRow (emu (s_term s1) data) (s_cols s) y =
                               renderRow (s_term s1) (s_cols s) y"
    for emu :: "'a emulator" and data
  proof -
    define fresh2 where "fresh2 = renderRow (emu (s_term s) data) (s_cols s)"
    have eq: "\<forall>y < s_rows s. fresh2 y = prev' ! y"
      using still nth' by (simp add: fresh2_def s1_def fresh_def)
    have none: "filter (\<lambda>y. fresh2 y \<noteq> prev' ! y) [0..<s_rows s] = []"
      using eq by (simp add: filter_empty_conv)
    from writeRows_closed [OF distinct_upt bnd1, of fresh2 "[]"] none obtain prev3 where
      "writeRows fresh2 [0..<s_rows s] [] prev' = Inr ([], prev3)"
      by auto
    then have "writeRows (renderRow (emu (s_term s) data) (s_cols s)) [0..<s_rows s] [] prev' =
        Inr ([], prev3)"
      by (simp add: fresh2_def)
    then show ?thesis
      by (simp add: Screen_Write_def Let_def s1_def)
  qed
  show ?thesis
    using first second quiet prev'
    by (intro exI [of _ snap] exI [of _ s1])
       (simp add: snap_def s1_def rs_def map_of_rendered fresh_def)
qed

theorem Snapshot_twice_then_quiet_Write_witness:
  "screen_ok (NewScreen styledTerminal 5 2) \<and>
   (\<exists>snap s1. Screen_Snapshot (NewScreen styledTerminal 5 2) = Inr (snap, s1) \<and>
      Screen_Snapshot s1 = Inr (snap, s1) \<and>
      map_of (n_Rows snap) 0 = Some ([ESC] @ ''[31mh'' @ [ESC] @ ''[1mi'' @ [ESC] @ ''[0m!'') \<and>
      map_of (n_Rows snap) 1 = Some [] \<and> map_of (n_Rows snap) 2 = None \<and>
      n_Cols snap = 5 \<and> n_NumRows snap = 2 \<and> n_CursorRow snap = 0 \<and> n_CursorCol snap = 3 \<and>
      renderRow (putEmulator (s_term s1) []) 5 0 = renderRow (s_term s1) 5 0 \<and>
      renderRow (putEmulator (s_term s1) []) 5 1 = renderRow (s_term s1) 5 1 \<and>
      (\<exists>s2. Screen_Write putEmulator [] s1 = Inr (None, s2)))"
proof -
  define s0 where "s0 = NewScreen styledTerminal 5 2"
  have ok: "screen_ok s0" by (simp add: s0_def screen_ok_def NewScreen_def)
  have dims: "s_rows s0 = 2" "s_cols s0 = 5" "s_term s0 = styledTerminal"
    by (simp_all add: s0_def NewScreen_def)
  have f0: "renderRow styledTerminal 5 0 = [ESC] @ ''[31mh'' @ [ESC] @ ''[1mi'' @ [ESC] @ ''[0m!''"
    by code_simp
  have f1: "renderRow styledTerminal 5 1 = []" by code_simp
  have cur: "c_Y (t_Cursor styledTerminal) = 0" "c_X (t_Cursor styledTerminal) = 3"
    by (simp_all add: styledTerminal_def)
  from Snapshot_twice_then_quiet_Write [OF ok, unfolded dims]
  obtain snap s1 where
    a: "Screen_Snapshot s0 = Inr (snap, s1)" "Screen_Snapshot s1 = Inr (snap, s1)"
    and rows: "\<forall>y. map_of (n_Rows snap) y =
        (if y < 2 then Some (renderRow styledTerminal 5 y) else None)"
    and geo: "n_Cols snap = 5" "n_NumRows snap = 2"
      "n_CursorRow snap = c_Y (t_Cursor styledTerminal)"
      "n_CursorCol snap = c_X (t_Cursor styledTerminal)"
    and quiet: "\<forall>emu data.
        (\<forall>y<2. renderRow (emu (s_term s1) data) 5 y = renderRow (s_term s1) 5 y) \<longrightarrow>
        (\<exists>s2. Screen_Write emu data s1 = Inr (None, s2))"
    by blast
  have e0: "renderRow (putEmulator (s_term s1) []) 5 0 = renderRow (s_term s1) 5 0"
    and e1: "renderRow (putEmulator (s_term s1) []) 5 1 = renderRow (s_term s1) 5 1"
    by (simp_all add: putEmulator_def)
  have still: "\<forall>y < 2. renderRow (putEmulator (s_term s1) []) 5 y = renderRow (s_term s1) 5 y"
  proof (intro allI impI)
    fix y :: nat
    assume "y < 2"
    then consider "y = 0" | "y = 1" by linarith
    then show "renderRow (putEmulator (s_term s1) []) 5 y = renderRow (s_term s1) 5 y"
      using e0 e1 by cases simp_all
  qed
  from quiet have "(\<forall>y<2. renderRow (putEmulator (s_term s1) []) 5 y = renderRow (s_term s1) 5 y) \<longrightarrow>
        (\<exists>s2. Screen_Write putEmulator [] s1 = Inr (None, s2))"
    by blast
  from this [THEN mp, OF still]
  have q: "\<exists>s2. Screen_Write putEmulator [] s1 = Inr (None, s2)" .
  have r0: "map_of (n_Rows snap) 0 = Some ([ESC] @ ''[31mh'' @ [ESC] @ ''[1mi'' @ [ESC] @ ''[0m!'')"
    using rows [THEN spec, of 0] f0 by simp
  have r1: "map_of (n_Rows snap) 1 = Some []"
    using rows [THEN spec, of 1] f1 by simp
  have r2: "map_of (n_Rows snap) 2 = None"
    using rows [THEN spec, of 2] by simp
  have "\<exists>snap s1. Screen_Snapshot s0 = Inr (snap, s1) \<and>
      Screen_Snapshot s1 = Inr (snap, s1) \<and>
      map_of (n_Rows snap) 0 = Some ([ESC] @ ''[31mh'' @ [ESC] @ ''[1mi'' @ [ESC] @ ''[0m!'') \<and>
      map_of (n_Rows snap) 1 = Some [] \<and> map_of (n_Rows snap) 2 = None \<and>
      n_Cols snap = 5 \<and> n_NumRows snap = 2 \<and> n_CursorRow snap = 0 \<and> n_CursorCol snap = 3 \<and>
      renderRow (putEmulator (s_term s1) []) 5 0 = renderRow (s_term s1) 5 0 \<and>
      renderRow (putEmulator (s_term s1) []) 5 1 = renderRow (s_term s1) 5 1 \<and>
      (\<exists>s2. Screen_Write putEmulator [] s1 = Inr (None, s2))"
    using a r0 r1 r2 geo cur e0 e1 q by (intro exI [of _ snap] exI [of _ s1]) simp
  then show ?thesis using ok unfolding s0_def by blast
qed

lemma sgrParams_nonempty: "style_differs p cell \<Longrightarrow> sgrParams p cell \<noteq> []"
  by (auto simp: style_differs_def sgrParams_def needReset_def Let_def)

lemma same_style_pen: "\<not> style_differs p cell \<Longrightarrow> p = cellPen cell"
  by (cases p) (auto simp: style_differs_def cellPen_def)

lemma renderCell_closed:
  "renderCell st cell =
     \<lparr>r_buf = r_buf st @ cellText (r_pen st) cell, r_pen = cellPen cell,
      r_styled = (r_styled st \<or> style_differs (r_pen st) cell)\<rparr>"
proof (cases "style_differs (r_pen st) cell")
  case True
  then show ?thesis
    using sgrParams_nonempty [OF True]
    by (cases st) (simp add: renderCell_def cellText_def Let_def)
next
  case False
  then show ?thesis
    using same_style_pen [OF False]
    by (cases st) (simp add: renderCell_def cellText_def Let_def)
qed

lemma renderCells_buf:
  "r_buf (renderCells st cells) = r_buf st @ rowText (r_pen st) cells"
  by (induction cells arbitrary: st) (simp_all add: renderCell_closed)

lemma renderCells_pen:
  "r_pen (renderCells st cells) = (if cells = [] then r_pen st else cellPen (last cells))"
  by (induction cells arbitrary: st) (simp_all add: renderCell_closed)

lemma renderCells_styled:
  "r_styled st \<or> r_pen st = defaultPen \<Longrightarrow>
   r_styled (renderCells st cells) \<or> r_pen (renderCells st cells) = defaultPen"
proof (induction cells arbitrary: st)
  case Nil
  then show ?case by simp
next
  case (Cons cell cells)
  have "r_styled (renderCell st cell) \<or> r_pen (renderCell st cell) = defaultPen"
  proof (cases "style_differs (r_pen st) cell")
    case True
    then show ?thesis by (simp add: renderCell_closed)
  next
    case False
    then have "cellPen cell = r_pen st" using same_style_pen [of "r_pen st" cell] by simp
    then show ?thesis using Cons.prems by (auto simp: renderCell_closed)
  qed
  from Cons.IH [OF this] show ?case by simp
qed

lemma not_active_default: "\<not> penActive defaultPen"
  by (simp add: penActive_def defaultPen_def)

lemma finishRow_closed:
  "r_styled st \<or> r_pen st = defaultPen \<Longrightarrow>
   finishRow st = r_buf st @ (if penActive (r_pen st) then [ESC] @ ''[0m'' else [])"
  using not_active_default by (auto simp: finishRow_def)

lemma rowText_snoc:
  "rowText p (cells @ [cell]) =
     rowText p cells @ cellText (if cells = [] then p else cellPen (last cells)) cell"
  by (induction cells arbitrary: p) simp_all

lemma rowText_by_column:
  "rowText defaultPen (map row [0..<n]) =
     concat (map (\<lambda>x. cellText (penBefore row x) (row x)) [0..<n])"
proof (induction n)
  case 0
  then show ?case by simp
next
  case (Suc n)
  have "(if map row [0..<n] = [] then defaultPen else cellPen (last (map row [0..<n]))) =
        penBefore row n"
    by (cases n) (simp_all add: penBefore_def)
  then show ?case using Suc by (simp add: rowText_snoc)
qed

lemma findLastCol_None: "findLastCol row n = None \<longleftrightarrow> (\<forall>x < n. \<not> nontrivial (row x))"
  by (induction n) (auto simp: less_Suc_eq)

lemma findLastCol_Some:
  "findLastCol row n = Some l \<longleftrightarrow>
     l < n \<and> nontrivial (row l) \<and> (\<forall>x. l < x \<and> x < n \<longrightarrow> \<not> nontrivial (row x))"
proof (induction n)
  case 0
  then show ?case by simp
next
  case (Suc n)
  show ?case
  proof (cases "nontrivial (row n)")
    case True
    then show ?thesis
      by (auto simp: less_Suc_eq)
  next
    case False
    then show ?thesis using Suc by (auto simp: less_Suc_eq)
  qed
qed

lemma renderRow_closed:
  "findLastCol (\<lambda>x. t_Cell t x y) cols = Some l \<Longrightarrow>
   renderRow t cols y =
     concat (map (\<lambda>x. cellText (penBefore (\<lambda>x. t_Cell t x y) x) (t_Cell t x y)) [0..<Suc l]) @
     (if penActive (cellPen (t_Cell t l y)) then [ESC] @ ''[0m'' else [])"
proof -
  assume f: "findLastCol (\<lambda>x. t_Cell t x y) cols = Some l"
  let ?row = "\<lambda>x. t_Cell t x y"
  let ?st = "renderCells initRow (map ?row [0..<Suc l])"
  have inv: "r_styled ?st \<or> r_pen ?st = defaultPen"
    by (rule renderCells_styled) (simp add: initRow_def)
  have pen: "r_pen ?st = cellPen (?row l)"
    by (simp add: renderCells_pen)
  have buf: "r_buf ?st = concat (map (\<lambda>x. cellText (penBefore ?row x) (?row x)) [0..<Suc l])"
    unfolding renderCells_buf using rowText_by_column [of ?row "Suc l"]
    by (simp add: initRow_def)
  show ?thesis
    using f finishRow_closed [OF inv] pen buf by (simp add: renderRow_def)
qed

lemma reset_params:
  "needReset p cell \<Longrightarrow> sgrParams p cell = ''0'' # activeAttrs cell"
  by (simp add: sgrParams_def activeAttrs_def defaultPen_def)

lemma reset_differs: "needReset p cell \<Longrightarrow> style_differs p cell"
  by (auto simp: needReset_def style_differs_def)

lemma style_bits:
  "(m AND (modeBold OR modeItalic OR modeUnderline) \<noteq> 0) \<longleftrightarrow>
   (m AND modeBold \<noteq> 0 \<or> m AND modeItalic \<noteq> 0 \<or> m AND modeUnderline \<noteq> 0)"
  for m :: "16 word"
  by (simp add: bit.conj_disj_distrib or_eq_0_iff)

lemma byte_char_ESC: "byte_char b = ESC \<longleftrightarrow> b = 0x1B"
proof -
  have lt: "unat b < 2 ^ 8" using unsigned_less [of b, where 'a = nat] by simp
  have "byte_char b = ESC \<longleftrightarrow> take_bit 8 (unat b) = (27::nat)"
    by (simp add: byte_char_def ESC_def char_of_eq_iff)
  also have "\<dots> \<longleftrightarrow> unat b = 27"
    using lt by (simp add: take_bit_nat_eq_self)
  also have "\<dots> \<longleftrightarrow> b = 0x1B"
    by (simp add: word_unat_eq_iff)
  finally show ?thesis .
qed

lemma high_not_ESC:
  "(0x80 OR x :: byte) \<noteq> 0x1B" "(0xC0 OR x :: byte) \<noteq> 0x1B"
  "(0xE0 OR x :: byte) \<noteq> 0x1B" "(0xF0 OR x :: byte) \<noteq> 0x1B"
proof -
  have n: "\<not> bit (0x1B :: byte) 7" by simp
  have "bit (0x80 OR x) 7" "bit (0xC0 OR x) 7" "bit (0xE0 OR x) 7" "bit (0xF0 OR x) 7"
    by (simp_all add: bit_or_iff)
  then show "(0x80 OR x :: byte) \<noteq> 0x1B" "(0xC0 OR x :: byte) \<noteq> 0x1B"
    "(0xE0 OR x :: byte) \<noteq> 0x1B" "(0xF0 OR x :: byte) \<noteq> 0x1B"
    using n by metis+
qed

lemma low_rune: "r \<le> 0x7F \<Longrightarrow> (ucast (r :: 32 word) :: byte) = 0x1B \<Longrightarrow> r = 0x1B"
proof -
  assume le: "r \<le> 0x7F" and eq: "(ucast r :: byte) = 0x1B"
  have "unat r \<le> 127" using le by (simp add: word_le_nat_alt)
  then have "unat (ucast r :: byte) = unat r"
    by (simp add: unsigned_ucast_eq take_bit_eq_mod)
  then have "unat r = 27" using eq by simp
  then show ?thesis by (simp add: word_unat_eq_iff)
qed

lemma AppendRune_nonempty: "AppendRune r \<noteq> []"
  by (simp add: AppendRune_def enc3_def)

lemma ESC_byte_char: "ESC = byte_char b \<longleftrightarrow> b = 0x1B"
  using byte_char_ESC [of b] by auto

lemma enc3_noEsc: "ESC \<notin> set (enc3 r)"
  by (simp add: enc3_def ESC_byte_char high_not_ESC)

lemma AppendRune_noEsc: "r \<noteq> 0x1B \<Longrightarrow> ESC \<notin> set (AppendRune r)"
  using low_rune [of r]
  by (auto simp: AppendRune_def enc3_noEsc ESC_byte_char high_not_ESC)


lemma digit_noEsc: "d < 10 \<Longrightarrow> digit_char d \<noteq> ESC"
  by (simp add: digit_char_def ESC_def char_of_eq_iff take_bit_nat_eq_self)

lemma decimal_noEsc: "ESC \<notin> set (decimal n)"
proof (induction n rule: decimal.induct)
  case (1 n)
  show ?case
  proof (cases "n < 10")
    case True
    then show ?thesis using digit_noEsc [of n] by (subst decimal.simps) auto
  next
    case False
    have "n mod 10 < 10" by simp
    then have "digit_char (n mod 10) \<noteq> ESC" by (rule digit_noEsc)
    then show ?thesis using False 1 by (subst decimal.simps) auto
  qed
qed

lemma ESC_not_plain:
  "ESC \<noteq> CHR ''0''" "ESC \<noteq> CHR ''1''" "ESC \<noteq> CHR ''2''" "ESC \<noteq> CHR ''3''"
  "ESC \<noteq> CHR ''4''" "ESC \<noteq> CHR ''5''" "ESC \<noteq> CHR ''8''" "ESC \<noteq> CHR ''9''"
  "ESC \<noteq> CHR '';''" "ESC \<noteq> CHR ''[''" "ESC \<noteq> CHR ''m''"
  by (simp_all add: ESC_def)

lemma rgb_noEsc: "ESC \<notin> set (rgb_params c)"
  by (simp add: rgb_params_def decimal_noEsc ESC_not_plain)

lemma fgSGR_noEsc: "ESC \<notin> set (fgSGR c)"
  by (simp add: fgSGR_def decimal_noEsc rgb_noEsc ESC_not_plain)

lemma bgSGR_noEsc: "ESC \<notin> set (bgSGR c)"
  by (simp add: bgSGR_def decimal_noEsc rgb_noEsc ESC_not_plain)

lemma join_semi_noEsc: "\<forall>p \<in> set ps. ESC \<notin> set p \<Longrightarrow> ESC \<notin> set (join_semi ps)"
  by (induction ps rule: join_semi.induct) (simp_all add: ESC_not_plain)

lemma sgrParams_noEsc: "\<forall>p \<in> set (sgrParams q cell). ESC \<notin> set p"
  by (auto simp: sgrParams_def Let_def fgSGR_noEsc bgSGR_noEsc ESC_not_plain)

lemma last_ESC_unique:
  assumes s: "s = a @ [ESC] @ b" and b: "ESC \<notin> set b"
    and suf: "suffix (ESC # v) s" and v: "ESC \<notin> set v"
  shows "b = v"
proof -
  from suf obtain x where x: "s = x @ ESC # v" by (auto simp: suffix_def)
  have "takeWhile (\<lambda>c. c \<noteq> ESC) (rev s) = rev b"
    using b unfolding s by (auto simp: takeWhile_tail)
  moreover have "takeWhile (\<lambda>c. c \<noteq> ESC) (rev s) = rev v"
    using v unfolding x by (auto simp: takeWhile_tail)
  ultimately show ?thesis by simp
qed

lemma rowText_shape:
  "\<forall>c \<in> set cells. cell_rune c \<noteq> 0x1B \<Longrightarrow>
   ESC \<notin> set (rowText p cells) \<or>
   (\<exists>a ps b. rowText p cells = a @ [ESC] @ ''['' @ ps @ ''m'' @ b \<and> b \<noteq> [] \<and>
      ESC \<notin> set ps \<and> ESC \<notin> set b)"
proof (induction cells arbitrary: p)
  case Nil
  then show ?case by simp
next
  case (Cons c cells)
  let ?enc = "AppendRune (cell_rune c)"
  let ?rest = "rowText (cellPen c) cells"
  have enc: "ESC \<notin> set ?enc" "?enc \<noteq> []"
    using Cons.prems by (simp_all add: AppendRune_noEsc AppendRune_nonempty)
  from Cons.IH [of "cellPen c"] Cons.prems
  consider (plain) "ESC \<notin> set ?rest"
    | (esc) a ps b where "?rest = a @ [ESC] @ ''['' @ ps @ ''m'' @ b" "b \<noteq> []"
        "ESC \<notin> set ps" "ESC \<notin> set b"
    by auto
  then show ?case
  proof cases
    case esc
    have "rowText p (c # cells) = (cellText p c @ a) @ [ESC] @ ''['' @ ps @ ''m'' @ b"
      using esc(1) by simp
    then show ?thesis using esc(2-4) by blast
  next
    case plain
    show ?thesis
    proof (cases "style_differs p c")
      case False
      then have "rowText p (c # cells) = ?enc @ ?rest" by (simp add: cellText_def)
      then show ?thesis using enc plain by simp
    next
      case True
      let ?ps = "join_semi (sgrParams p c)"
      have ps: "ESC \<notin> set ?ps" by (rule join_semi_noEsc [OF sgrParams_noEsc])
      have "rowText p (c # cells) = [] @ [ESC] @ ''['' @ ?ps @ ''m'' @ (?enc @ ?rest)"
        using True by (simp add: cellText_def)
      moreover have "?enc @ ?rest \<noteq> []" "ESC \<notin> set (?enc @ ?rest)"
        using enc plain by simp_all
      ultimately show ?thesis using ps by blast
    qed
  qed
qed

lemma rowText_no_reset_suffix:
  assumes "\<forall>c \<in> set cells. cell_rune c \<noteq> 0x1B"
  shows "\<not> suffix ([ESC] @ ''[0m'') (rowText p cells)"
proof
  assume suf: "suffix ([ESC] @ ''[0m'') (rowText p cells)"
  then have mem: "ESC \<in> set (rowText p cells)"
    by (auto simp: suffix_def)
  from rowText_shape [OF assms, of p] mem obtain a ps b where
    h: "rowText p cells = a @ [ESC] @ ''['' @ ps @ ''m'' @ b" "b \<noteq> []"
       "ESC \<notin> set ps" "ESC \<notin> set b"
    by blast
  have nb: "ESC \<notin> set (''['' @ ps @ ''m'' @ b)"
    using h(3,4) by (simp add: ESC_not_plain)
  have nv: "ESC \<notin> set ''[0m''" by (simp add: ESC_not_plain)
  from suf have suf': "suffix (ESC # ''[0m'') (rowText p cells)" by simp
  from last_ESC_unique [OF h(1) nb suf' nv]
  have "ps @ ''m'' @ b = ''0m''" by simp
  then show False using h(2) by (cases ps; cases b) auto
qed

lemma renderRow_reset_suffix:
  assumes f: "findLastCol (\<lambda>x. t_Cell t x y) cols = Some l"
    and ne: "\<forall>x \<le> l. cell_rune (t_Cell t x y) \<noteq> 0x1B"
  shows "suffix ([ESC] @ ''[0m'') (renderRow t cols y) \<longleftrightarrow> penActive (cellPen (t_Cell t l y))"
proof (cases "penActive (cellPen (t_Cell t l y))")
  case True
  then show ?thesis
    unfolding renderRow_closed [OF f] by (simp add: suffix_def)
next
  case False
  let ?row = "\<lambda>x. t_Cell t x y"
  have cells: "\<forall>c \<in> set (map ?row [0..<Suc l]). cell_rune c \<noteq> 0x1B"
    using ne by auto
  have "renderRow t cols y = rowText defaultPen (map ?row [0..<Suc l])"
    unfolding renderRow_closed [OF f] using False
    by (simp only: rowText_by_column if_False append_Nil2)
  then show ?thesis
    using rowText_no_reset_suffix [OF cells, of defaultPen] False by simp
qed

lemma nontrivial_iff:
  "nontrivial cell \<longleftrightarrow>
     (g_Char cell \<noteq> 0 \<and> g_Char cell \<noteq> 0x20) \<or> g_FG cell \<noteq> DefaultFG \<or>
     g_BG cell \<noteq> DefaultBG \<or> is_bold cell \<or> is_italic cell \<or> is_underline cell"
  by (auto simp: nontrivial_def cell_rune_def is_bold_def is_italic_def is_underline_def
      style_bits)

lemma styled_cells:
  "t_Cell styledTerminal 0 0 = \<lparr>g_Char = 0x68, g_Mode = 0, g_FG = 1, g_BG = DefaultBG\<rparr>"
  "t_Cell styledTerminal 1 0 = \<lparr>g_Char = 0x69, g_Mode = 4, g_FG = 1, g_BG = DefaultBG\<rparr>"
  "t_Cell styledTerminal 2 0 = plainGlyph 0x21"
  "2 < x \<Longrightarrow> t_Cell styledTerminal x 0 = plainGlyph 0"
  by (simp_all add: styledTerminal_def)

lemma plain_trivial: "\<not> nontrivial (plainGlyph 0)"
  by (simp add: nontrivial_def plainGlyph_def cell_rune_def)

lemma bang_nontrivial: "nontrivial (plainGlyph 0x21)"
  by (simp add: nontrivial_def plainGlyph_def cell_rune_def)

text \<open>
  Claim C8. A cell is non-trivial when its character is neither NUL nor a space, or a
  colour is not the default, or a style bit is set. A row with no non-trivial cell
  renders as the empty string. Otherwise, with \<open>l\<close> the last non-trivial column, the row
  is the text of the cells \<open>0\<close> to \<open>l\<close>, left to right, each written with the style of
  its left neighbour in force, followed by a reset exactly when a style is active on the
  cell \<open>l\<close>; nothing right of \<open>l\<close> is read. As a string, the row then ends with the
  reset sequence exactly when a style is active on the cell \<open>l\<close>, provided no cell up to
  \<open>l\<close> holds the escape character itself. When a cell drops an attribute that is in
  force, its text is a full reset followed by the parameters of every attribute active on
  the cell, and then its character; a cell with the style in force is its character alone.
\<close>

theorem renderRow_rule:
  fixes t :: "'h Terminal"
  shows
  "(\<forall>cell. nontrivial cell \<longleftrightarrow>
      (g_Char cell \<noteq> 0 \<and> g_Char cell \<noteq> 0x20) \<or> g_FG cell \<noteq> DefaultFG \<or>
      g_BG cell \<noteq> DefaultBG \<or> is_bold cell \<or> is_italic cell \<or> is_underline cell) \<and>
   ((\<forall>x < cols. \<not> nontrivial (t_Cell t x y)) \<longrightarrow> renderRow t cols y = []) \<and>
   (\<forall>l. l < cols \<and> nontrivial (t_Cell t l y) \<and>
        (\<forall>x. l < x \<and> x < cols \<longrightarrow> \<not> nontrivial (t_Cell t x y)) \<longrightarrow>
      renderRow t cols y =
        concat (map (\<lambda>x. cellText (penBefore (\<lambda>x. t_Cell t x y) x) (t_Cell t x y)) [0..<Suc l]) @
        (if penActive (cellPen (t_Cell t l y)) then [ESC] @ ''[0m'' else [])) \<and>
   (\<forall>l. l < cols \<and> nontrivial (t_Cell t l y) \<and>
        (\<forall>x. l < x \<and> x < cols \<longrightarrow> \<not> nontrivial (t_Cell t x y)) \<and>
        (\<forall>x \<le> l. cell_rune (t_Cell t x y) \<noteq> 0x1B) \<longrightarrow>
      (suffix ([ESC] @ ''[0m'') (renderRow t cols y) \<longleftrightarrow>
         penActive (cellPen (t_Cell t l y)))) \<and>
   (\<forall>p cell. needReset p cell \<longrightarrow>
      cellText p cell =
        [ESC] @ ''['' @ join_semi (''0'' # activeAttrs cell) @ ''m'' @ AppendRune (cell_rune cell)) \<and>
   (\<forall>p cell. \<not> style_differs p cell \<longrightarrow> cellText p cell = AppendRune (cell_rune cell))"
proof (intro conjI allI impI)
  fix cell
  show "nontrivial cell \<longleftrightarrow>
      (g_Char cell \<noteq> 0 \<and> g_Char cell \<noteq> 0x20) \<or> g_FG cell \<noteq> DefaultFG \<or>
      g_BG cell \<noteq> DefaultBG \<or> is_bold cell \<or> is_italic cell \<or> is_underline cell"
    by (rule nontrivial_iff)
next
  assume "\<forall>x < cols. \<not> nontrivial (t_Cell t x y)"
  then have "findLastCol (\<lambda>x. t_Cell t x y) cols = None"
    by (simp add: findLastCol_None)
  then show "renderRow t cols y = []" by (simp add: renderRow_def)
next
  fix l
  assume "l < cols \<and> nontrivial (t_Cell t l y) \<and>
        (\<forall>x. l < x \<and> x < cols \<longrightarrow> \<not> nontrivial (t_Cell t x y))"
  then have "findLastCol (\<lambda>x. t_Cell t x y) cols = Some l"
    by (simp add: findLastCol_Some)
  then show "renderRow t cols y =
        concat (map (\<lambda>x. cellText (penBefore (\<lambda>x. t_Cell t x y) x) (t_Cell t x y)) [0..<Suc l]) @
        (if penActive (cellPen (t_Cell t l y)) then [ESC] @ ''[0m'' else [])"
    by (rule renderRow_closed)
next
  fix l
  assume h: "l < cols \<and> nontrivial (t_Cell t l y) \<and>
        (\<forall>x. l < x \<and> x < cols \<longrightarrow> \<not> nontrivial (t_Cell t x y)) \<and>
        (\<forall>x \<le> l. cell_rune (t_Cell t x y) \<noteq> 0x1B)"
  then have f: "findLastCol (\<lambda>x. t_Cell t x y) cols = Some l"
    by (simp add: findLastCol_Some)
  from h have ne: "\<forall>x \<le> l. cell_rune (t_Cell t x y) \<noteq> 0x1B" by blast
  show "suffix ([ESC] @ ''[0m'') (renderRow t cols y) \<longleftrightarrow>
         penActive (cellPen (t_Cell t l y))"
    by (rule renderRow_reset_suffix [OF f ne])
next
  fix p cell
  assume r: "needReset p cell"
  show "cellText p cell =
        [ESC] @ ''['' @ join_semi (''0'' # activeAttrs cell) @ ''m'' @ AppendRune (cell_rune cell)"
    using reset_differs [OF r] reset_params [OF r] by (simp add: cellText_def)
next
  fix p cell
  assume "\<not> style_differs p cell"
  then show "cellText p cell = AppendRune (cell_rune cell)" by (simp add: cellText_def)
qed

theorem renderRow_rule_witness:
  "(2::nat) < 5 \<and> nontrivial (t_Cell styledTerminal 2 0) \<and>
   \<not> nontrivial (t_Cell styledTerminal 3 0) \<and> \<not> nontrivial (t_Cell styledTerminal 4 0) \<and>
   renderRow styledTerminal 5 0 =
     [ESC] @ ''[31mh'' @ [ESC] @ ''[1mi'' @ [ESC] @ ''[0m!'' \<and>
   cell_rune (t_Cell styledTerminal 0 0) \<noteq> 0x1B \<and>
   cell_rune (t_Cell styledTerminal 1 0) \<noteq> 0x1B \<and>
   cell_rune (t_Cell styledTerminal 2 0) \<noteq> 0x1B \<and>
   \<not> penActive (cellPen (t_Cell styledTerminal 2 0)) \<and>
   \<not> suffix ([ESC] @ ''[0m'') (renderRow styledTerminal 5 0) \<and>
   \<not> nontrivial (t_Cell styledTerminal 0 1) \<and> \<not> nontrivial (t_Cell styledTerminal 1 1) \<and>
   \<not> nontrivial (t_Cell styledTerminal 2 1) \<and> \<not> nontrivial (t_Cell styledTerminal 3 1) \<and>
   \<not> nontrivial (t_Cell styledTerminal 4 1) \<and>
   renderRow styledTerminal 5 1 = [] \<and>
   needReset (penBefore (\<lambda>x. t_Cell styledTerminal x 0) 2) (t_Cell styledTerminal 2 0) \<and>
   cellText (penBefore (\<lambda>x. t_Cell styledTerminal x 0) 2) (t_Cell styledTerminal 2 0) =
     [ESC] @ ''[0m!'' \<and>
   \<not> style_differs defaultPen (plainGlyph 0x41) \<and>
   cellText defaultPen (plainGlyph 0x41) = ''A''"
proof -
  note t = renderRow_rule [where t = styledTerminal]
  note t2 = t [THEN conjunct2, THEN conjunct1, THEN mp]
  note t3 = t [THEN conjunct2, THEN conjunct2, THEN conjunct1, THEN spec, THEN mp]
  note ts = t [THEN conjunct2, THEN conjunct2, THEN conjunct2, THEN conjunct1, THEN spec,
      THEN mp]
  note t4 = t [THEN conjunct2, THEN conjunct2, THEN conjunct2, THEN conjunct2, THEN conjunct1,
      THEN spec, THEN spec, THEN mp]
  note t5 = t [THEN conjunct2, THEN conjunct2, THEN conjunct2, THEN conjunct2, THEN conjunct2,
      THEN spec, THEN spec, THEN mp]
  have n2: "nontrivial (t_Cell styledTerminal 2 0)"
    by (simp add: styled_cells bang_nontrivial)
  have n34: "\<not> nontrivial (t_Cell styledTerminal 3 0)" "\<not> nontrivial (t_Cell styledTerminal 4 0)"
    by (simp_all add: styled_cells plain_trivial)
  have h: "2 < (5::nat) \<and> nontrivial (t_Cell styledTerminal 2 0) \<and>
     (\<forall>x. 2 < x \<and> x < 5 \<longrightarrow> \<not> nontrivial (t_Cell styledTerminal x 0))"
  proof (intro conjI allI impI)
    show "2 < (5::nat)" by simp
    show "nontrivial (t_Cell styledTerminal 2 0)" by (rule n2)
    fix x :: nat
    assume "2 < x \<and> x < 5"
    then consider "x = 3" | "x = 4" by linarith
    then show "\<not> nontrivial (t_Cell styledTerminal x 0)" using n34 by cases simp_all
  qed
  have row0: "renderRow styledTerminal 5 0 =
     concat (map (\<lambda>x. cellText (penBefore (\<lambda>x. t_Cell styledTerminal x 0) x)
        (t_Cell styledTerminal x 0)) [0..<Suc 2]) @
     (if penActive (cellPen (t_Cell styledTerminal 2 0)) then [ESC] @ ''[0m'' else [])"
    by (rule t3 [OF h])
  have ev: "concat (map (\<lambda>x. cellText (penBefore (\<lambda>x. t_Cell styledTerminal x 0) x)
        (t_Cell styledTerminal x 0)) [0..<Suc 2]) @
     (if penActive (cellPen (t_Cell styledTerminal 2 0)) then [ESC] @ ''[0m'' else []) =
     [ESC] @ ''[31mh'' @ [ESC] @ ''[1mi'' @ [ESC] @ ''[0m!''"
    by code_simp
  have runes: "cell_rune (t_Cell styledTerminal 0 0) \<noteq> 0x1B"
    "cell_rune (t_Cell styledTerminal 1 0) \<noteq> 0x1B"
    "cell_rune (t_Cell styledTerminal 2 0) \<noteq> 0x1B"
    by code_simp+
  have runes': "\<forall>x \<le> 2. cell_rune (t_Cell styledTerminal x 0) \<noteq> 0x1B"
  proof (intro allI impI)
    fix x :: nat
    assume "x \<le> 2"
    then consider "x = 0" | "x = 1" | "x = 2" by linarith
    then show "cell_rune (t_Cell styledTerminal x 0) \<noteq> 0x1B"
      using runes by cases simp_all
  qed
  have h': "2 < (5::nat) \<and> nontrivial (t_Cell styledTerminal 2 0) \<and>
     (\<forall>x. 2 < x \<and> x < 5 \<longrightarrow> \<not> nontrivial (t_Cell styledTerminal x 0)) \<and>
     (\<forall>x \<le> 2. cell_rune (t_Cell styledTerminal x 0) \<noteq> 0x1B)"
    using h runes' by blast
  have na: "\<not> penActive (cellPen (t_Cell styledTerminal 2 0))"
    by code_simp
  have ns: "\<not> suffix ([ESC] @ ''[0m'') (renderRow styledTerminal 5 0)"
    using ts [OF h'] na by simp
  have e1: "\<forall>x < 5. \<not> nontrivial (t_Cell styledTerminal x 1)"
    by (simp add: styledTerminal_def plain_trivial)
  have e1': "\<not> nontrivial (t_Cell styledTerminal 0 1)" "\<not> nontrivial (t_Cell styledTerminal 1 1)"
    "\<not> nontrivial (t_Cell styledTerminal 2 1)" "\<not> nontrivial (t_Cell styledTerminal 3 1)"
    "\<not> nontrivial (t_Cell styledTerminal 4 1)"
    by (simp_all add: styledTerminal_def plain_trivial)
  have row1: "renderRow styledTerminal 5 1 = []"
    by (rule t2 [OF e1])
  have nr: "needReset (penBefore (\<lambda>x. t_Cell styledTerminal x 0) 2) (t_Cell styledTerminal 2 0)"
    by code_simp
  have ct: "cellText (penBefore (\<lambda>x. t_Cell styledTerminal x 0) 2) (t_Cell styledTerminal 2 0) =
     [ESC] @ ''['' @ join_semi (''0'' # activeAttrs (t_Cell styledTerminal 2 0)) @ ''m'' @
     AppendRune (cell_rune (t_Cell styledTerminal 2 0))"
    by (rule t4 [OF nr])
  have ct': "[ESC] @ ''['' @ join_semi (''0'' # activeAttrs (t_Cell styledTerminal 2 0)) @ ''m'' @
     AppendRune (cell_rune (t_Cell styledTerminal 2 0)) = [ESC] @ ''[0m!''"
    by code_simp
  have nd: "\<not> style_differs defaultPen (plainGlyph 0x41)"
    by code_simp
  have pa: "cellText defaultPen (plainGlyph 0x41) = AppendRune (cell_rune (plainGlyph 0x41))"
    by (rule t5 [OF nd])
  have pa': "AppendRune (cell_rune (plainGlyph 0x41)) = ''A''"
    by code_simp
  show ?thesis
    using n2 n34 row0 ev runes na ns e1' row1 nr ct ct' nd pa pa' by simp
qed

section \<open>Properties of the pipe manager\<close>

lemma inv_new: "pm_inv NewPipePaneManager"
  by (simp add: pm_inv_def NewPipePaneManager_def)

lemma Subscribe_existing:
  "pm_streams s session = Some stream \<Longrightarrow>
   Subscribe session createOk startOk s =
     (Inr (pm_next s),
      s\<lparr>pm_next := Suc (pm_next s),
        pm_streams := (pm_streams s)
          (session \<mapsto> stream\<lparr>ps_subscribers := insert (pm_next s) (ps_subscribers stream)\<rparr>)\<rparr>)"
  by (simp add: Subscribe_def Let_def)

lemma Subscribe_create_fails:
  "pm_streams s session = None \<Longrightarrow>
   Subscribe session False startOk s = (Inl CreatePipeFile, s\<lparr>pm_next := Suc (pm_next s)\<rparr>)"
  by (simp add: Subscribe_def Let_def)

lemma Subscribe_start_fails:
  "pm_streams s session = None \<Longrightarrow>
   Subscribe session True False s =
     (Inl ActivatePipePane,
      s\<lparr>pm_next := Suc (pm_next s),
        pm_issued := pm_issued s @ [CmdPipePaneStart session (''cat >> '' @ pipeFilePath session)],
        pm_files := pm_files s - {pipeFilePath session}\<rparr>)"
  by (simp add: Subscribe_def Let_def PipePaneStart_def)

lemma Subscribe_first:
  "pm_streams s session = None \<Longrightarrow>
   Subscribe session True True s =
     (Inr (pm_next s),
      s\<lparr>pm_next := Suc (Suc (pm_next s)),
        pm_files := insert (pipeFilePath session) (pm_files s),
        pm_issued := pm_issued s @ [CmdPipePaneStart session (''cat >> '' @ pipeFilePath session)],
        pm_pipes := insert session (pm_pipes s),
        pm_streams := (pm_streams s)
          (session \<mapsto> \<lparr>ps_session = session, ps_filePath = pipeFilePath session,
                        ps_cancel = Suc (pm_next s), ps_subscribers = {pm_next s}\<rparr>),
        pm_running := insert (Suc (pm_next s)) (pm_running s)\<rparr>)"
  by (simp add: Subscribe_def Let_def PipePaneStart_def)

lemma inv_subscribe:
  assumes inv: "pm_inv s"
  shows "pm_inv (snd (Subscribe session createOk startOk s))"
proof -
  have fresh: "\<And>name st. pm_streams s name = Some st \<Longrightarrow> pm_next s \<notin> ps_subscribers st"
    using inv unfolding pm_inv_def by (metis less_irrefl)
  have notclosed: "pm_next s \<notin> pm_closed s"
    using inv unfolding pm_inv_def by (metis less_irrefl)
  show ?thesis
  proof (cases "pm_streams s session")
    case (Some stream)
    have eq: "snd (Subscribe session createOk startOk s) =
        s\<lparr>pm_next := Suc (pm_next s),
          pm_streams := (pm_streams s)
            (session \<mapsto> stream\<lparr>ps_subscribers := insert (pm_next s) (ps_subscribers stream)\<rparr>)\<rparr>"
      by (simp add: Subscribe_existing [OF Some])
    show ?thesis
      unfolding eq using inv Some fresh notclosed
      unfolding pm_inv_def
      apply (intro conjI)
         apply (simp add: dom_def; blast)
        apply (simp add: less_Suc_eq)
       apply (simp add: less_Suc_eq; blast)
      apply (simp; blast)
      done
  next
    case None
    consider (a) "\<not> createOk" | (b) "createOk" "\<not> startOk" | (c) "createOk" "startOk"
      by blast
    then show ?thesis
    proof cases
      case a
      then have eq: "snd (Subscribe session createOk startOk s) = s\<lparr>pm_next := Suc (pm_next s)\<rparr>"
        by (simp add: Subscribe_create_fails [OF None])
      show ?thesis
        unfolding eq using inv unfolding pm_inv_def
        by (auto simp: less_Suc_eq)
    next
      case b
      then have eq: "snd (Subscribe session createOk startOk s) =
          s\<lparr>pm_next := Suc (pm_next s),
            pm_issued := pm_issued s @ [CmdPipePaneStart session (''cat >> '' @ pipeFilePath session)],
            pm_files := pm_files s - {pipeFilePath session}\<rparr>"
        by (simp add: Subscribe_start_fails [OF None])
      show ?thesis
        unfolding eq using inv unfolding pm_inv_def
        by (auto simp: less_Suc_eq)
    next
      case c
      then have eq: "snd (Subscribe session createOk startOk s) =
          s\<lparr>pm_next := Suc (Suc (pm_next s)),
            pm_files := insert (pipeFilePath session) (pm_files s),
            pm_issued := pm_issued s @ [CmdPipePaneStart session (''cat >> '' @ pipeFilePath session)],
            pm_pipes := insert session (pm_pipes s),
            pm_streams := (pm_streams s)
              (session \<mapsto> \<lparr>ps_session = session, ps_filePath = pipeFilePath session,
                            ps_cancel = Suc (pm_next s), ps_subscribers = {pm_next s}\<rparr>),
            pm_running := insert (Suc (pm_next s)) (pm_running s)\<rparr>"
        by (simp add: Subscribe_first [OF None])
      show ?thesis
        unfolding eq using inv None fresh notclosed
        unfolding pm_inv_def
        apply (intro conjI)
           apply (simp add: dom_def; blast)
          apply (simp add: less_Suc_eq)
         apply (simp add: less_Suc_eq; blast)
        apply (simp; blast)
        done
    qed
  qed
qed


lemma stopStream_open:
  "ps_subscribers stream \<inter> pm_closed s = {} \<Longrightarrow>
   stopStream stream s =
     Inr (s\<lparr>pm_running := pm_running s - {ps_cancel stream},
            pm_issued := pm_issued s @ [CmdPipePaneStop (ps_session stream)],
            pm_pipes := pm_pipes s - {ps_session stream},
            pm_closed := pm_closed s \<union> ps_subscribers stream,
            pm_files := pm_files s - {ps_filePath stream}\<rparr>)"
  by (simp add: stopStream_def PipePaneStop_def Let_def)

lemma Unsubscribe_no_stream:
  "pm_streams s session = None \<Longrightarrow> Unsubscribe session ch s = Inr s"
  by (simp add: Unsubscribe_def)

lemma Unsubscribe_not_subscribed:
  assumes "pm_streams s session = Some stream" "ch \<notin> ps_subscribers stream"
    "ps_subscribers stream \<noteq> {}"
  shows "Unsubscribe session ch s = Inr s"
proof -
  have st: "stream\<lparr>ps_subscribers := ps_subscribers stream - {ch}\<rparr> = stream"
    using assms(2) by simp
  have mp: "(pm_streams s)(session \<mapsto> stream) = pm_streams s"
    using assms(1) by (rule map_upd_triv)
  show ?thesis
    using assms by (simp add: Unsubscribe_def Let_def st mp)
qed

lemma Unsubscribe_others_remain:
  assumes "pm_streams s session = Some stream" "ch \<in> ps_subscribers stream"
    "ch \<notin> pm_closed s" "ps_subscribers stream - {ch} \<noteq> {}"
  shows "Unsubscribe session ch s =
     Inr (s\<lparr>pm_closed := insert ch (pm_closed s),
            pm_streams := (pm_streams s)
              (session \<mapsto> stream\<lparr>ps_subscribers := ps_subscribers stream - {ch}\<rparr>)\<rparr>)"
  using assms by (simp add: Unsubscribe_def Let_def closeChan_def)

lemma Unsubscribe_last:
  assumes "pm_streams s session = Some stream" "ps_subscribers stream = {ch}"
    "ch \<notin> pm_closed s"
  shows "Unsubscribe session ch s =
     Inr (s\<lparr>pm_closed := insert ch (pm_closed s),
            pm_running := pm_running s - {ps_cancel stream},
            pm_issued := pm_issued s @ [CmdPipePaneStop (ps_session stream)],
            pm_pipes := pm_pipes s - {ps_session stream},
            pm_files := pm_files s - {ps_filePath stream},
            pm_streams := (pm_streams s)(session := None)\<rparr>)"
  using assms by (simp add: Unsubscribe_def Let_def closeChan_def stopStream_def PipePaneStop_def)

lemma inv_unsubscribe:
  assumes inv: "pm_inv s"
  shows "\<exists>s'. Unsubscribe session ch s = Inr s' \<and> pm_inv s'"
proof (cases "pm_streams s session")
  case None
  then show ?thesis using inv by (simp add: Unsubscribe_no_stream)
next
  case (Some stream)
  have sess: "ps_session stream = session" and ne: "ps_subscribers stream \<noteq> {}"
    and op: "ps_subscribers stream \<inter> pm_closed s = {}"
    using inv Some unfolding pm_inv_def by blast+
  show ?thesis
  proof (cases "ch \<in> ps_subscribers stream")
    case False
    then show ?thesis using inv Some ne by (simp add: Unsubscribe_not_subscribed)
  next
    case True
    then have nc: "ch \<notin> pm_closed s" using op by blast
    show ?thesis
    proof (cases "ps_subscribers stream - {ch} = {}")
      case False
      note eq = Unsubscribe_others_remain [OF Some True nc False]
      have "pm_inv (s\<lparr>pm_closed := insert ch (pm_closed s),
            pm_streams := (pm_streams s)
              (session \<mapsto> stream\<lparr>ps_subscribers := ps_subscribers stream - {ch}\<rparr>)\<rparr>)"
        using inv Some True False sess
        unfolding pm_inv_def
        apply (intro conjI)
           apply (simp add: dom_def; blast)
          apply (simp; blast)
         apply (simp; blast)
        apply (simp; blast)
        done
      then show ?thesis using eq by simp
    next
      case empty: True
      then have single: "ps_subscribers stream = {ch}" using True by blast
      note eq = Unsubscribe_last [OF Some single nc]
      have "pm_inv (s\<lparr>pm_closed := insert ch (pm_closed s),
            pm_running := pm_running s - {ps_cancel stream},
            pm_issued := pm_issued s @ [CmdPipePaneStop (ps_session stream)],
            pm_pipes := pm_pipes s - {ps_session stream},
            pm_files := pm_files s - {ps_filePath stream},
            pm_streams := (pm_streams s)(session := None)\<rparr>)"
        using inv Some single sess
        unfolding pm_inv_def
        apply (intro conjI)
           apply (simp add: dom_def; blast)
          apply (simp; blast)
         apply (simp; blast)
        apply (simp; blast)
        done
      then show ?thesis using eq by simp
    qed
  qed
qed


lemma inv_stop_one:
  assumes inv: "pm_inv s" and st: "pm_streams s name = Some stream"
  shows "\<exists>s1. stopStream stream s = Inr s1 \<and>
           pm_inv (s1\<lparr>pm_streams := (pm_streams s1)(name := None)\<rparr>) \<and>
           pm_streams s1 = pm_streams s"
proof -
  have sess: "ps_session stream = name"
    and op: "ps_subscribers stream \<inter> pm_closed s = {}"
    using inv st unfolding pm_inv_def by blast+
  note eq = stopStream_open [OF op]
  have "pm_inv (s\<lparr>pm_running := pm_running s - {ps_cancel stream},
            pm_issued := pm_issued s @ [CmdPipePaneStop (ps_session stream)],
            pm_pipes := pm_pipes s - {ps_session stream},
            pm_closed := pm_closed s \<union> ps_subscribers stream,
            pm_files := pm_files s - {ps_filePath stream},
            pm_streams := (pm_streams s)(name := None)\<rparr>)"
    using inv st sess
    unfolding pm_inv_def
    apply (intro conjI)
       apply (simp add: dom_def; blast)
      apply (simp; blast)
     apply (simp; blast)
    apply (simp; blast)
    done
  then show ?thesis using eq by simp
qed

lemma inv_stopAll:
  "pm_inv s \<Longrightarrow>
   \<exists>s'. StopAll names s = Inr s' \<and> pm_inv s' \<and>
     pm_streams s' = (\<lambda>n. if n \<in> set names then None else pm_streams s n)"
proof (induction names arbitrary: s)
  case Nil
  then show ?case by simp
next
  case (Cons name names)
  show ?case
  proof (cases "pm_streams s name")
    case None
    from Cons.IH [OF Cons.prems] obtain s' where
      h: "StopAll names s = Inr s'" "pm_inv s'"
         "pm_streams s' = (\<lambda>n. if n \<in> set names then None else pm_streams s n)"
      by blast
    have "pm_streams s' = (\<lambda>n. if n \<in> set (name # names) then None else pm_streams s n)"
      using h(3) None by auto
    then show ?thesis using h None by simp
  next
    case (Some stream)
    from inv_stop_one [OF Cons.prems Some] obtain s1 where
      s1: "stopStream stream s = Inr s1"
          "pm_inv (s1\<lparr>pm_streams := (pm_streams s1)(name := None)\<rparr>)"
          "pm_streams s1 = pm_streams s"
      by blast
    from Cons.IH [OF s1(2)] obtain s' where
      h: "StopAll names (s1\<lparr>pm_streams := (pm_streams s1)(name := None)\<rparr>) = Inr s'"
         "pm_inv s'"
         "pm_streams s' = (\<lambda>n. if n \<in> set names then None
            else pm_streams (s1\<lparr>pm_streams := (pm_streams s1)(name := None)\<rparr>) n)"
      by blast
    have "pm_streams s' = (\<lambda>n. if n \<in> set (name # names) then None else pm_streams s n)"
      using h(3) s1(3) by auto
    then show ?thesis using h Some s1 by simp
  qed
qed

lemma reachable_inv: "reachable s \<Longrightarrow> pm_inv s"
proof (induction rule: reachable.induct)
  case r_new
  show ?case by (rule inv_new)
next
  case (r_subscribe s session createOk startOk)
  then show ?case by (simp add: inv_subscribe)
next
  case (r_unsubscribe s session ch s')
  then show ?case using inv_unsubscribe [of s session ch] by auto
next
  case (r_stopAll s names s')
  then show ?case using inv_stopAll [of s names] by auto
qed

text \<open>
  Claim C10. In every reachable state of the manager, \<open>Unsubscribe\<close> for a session with
  no stream, or with a channel that is not a subscriber of the session's stream, returns
  the state it was given: streams, subscriber sets, tail files, pipe-pane configuration
  and the list of issued control-channel commands are all unchanged.
\<close>

theorem Unsubscribe_stranger_changes_nothing:
  assumes "reachable s"
    and "pm_streams s session = None \<or>
         (\<exists>stream. pm_streams s session = Some stream \<and> ch \<notin> ps_subscribers stream)"
  shows "Unsubscribe session ch s = Inr s"
proof (cases "pm_streams s session")
  case None
  then show ?thesis by (rule Unsubscribe_no_stream)
next
  case (Some stream)
  have "ps_subscribers stream \<noteq> {}"
    using reachable_inv [OF assms(1)] Some unfolding pm_inv_def by blast
  then show ?thesis using assms(2) Some by (simp add: Unsubscribe_not_subscribed)
qed


lemma oneSubscriber_eq:
  "oneSubscriber =
     \<lparr>pm_streams = [''a'' \<mapsto> \<lparr>ps_session = ''a'', ps_filePath = ''/tmp/adapter-a.pipe'',
                              ps_cancel = 1, ps_subscribers = {0}\<rparr>],
      pm_files = {''/tmp/adapter-a.pipe''}, pm_pipes = {''a''}, pm_running = {1},
      pm_closed = {},
      pm_issued = [CmdPipePaneStart ''a'' ''cat >> /tmp/adapter-a.pipe''], pm_next = 2\<rparr>"
  by (simp add: oneSubscriber_def Subscribe_def Let_def NewPipePaneManager_def PipePaneStart_def
      pipeFilePath_def)

lemma oneSubscriber_reachable: "reachable oneSubscriber"
  unfolding oneSubscriber_def by (rule r_subscribe [OF r_new])

theorem Unsubscribe_stranger_changes_nothing_witness:
  "reachable oneSubscriber \<and>
   (pm_streams oneSubscriber ''b'' = None \<and> Unsubscribe ''b'' 0 oneSubscriber = Inr oneSubscriber) \<and>
   ((\<exists>stream. pm_streams oneSubscriber ''a'' = Some stream \<and> 7 \<notin> ps_subscribers stream) \<and>
    Unsubscribe ''a'' 7 oneSubscriber = Inr oneSubscriber)"
proof -
  have r: "reachable oneSubscriber" by (rule oneSubscriber_reachable)
  have b: "pm_streams oneSubscriber ''b'' = None" by (simp add: oneSubscriber_eq)
  have a: "\<exists>stream. pm_streams oneSubscriber ''a'' = Some stream \<and> 7 \<notin> ps_subscribers stream"
    by (simp add: oneSubscriber_eq)
  have ub: "Unsubscribe ''b'' 0 oneSubscriber = Inr oneSubscriber"
    by (rule Unsubscribe_stranger_changes_nothing [OF r disjI1 [OF b]])
  have ua: "Unsubscribe ''a'' 7 oneSubscriber = Inr oneSubscriber"
    by (rule Unsubscribe_stranger_changes_nothing [OF r disjI2 [OF a]])
  show ?thesis
    by (intro conjI r a b ua ub)
qed


section \<open>Properties of the broadcast, the flags and the modelled parts\<close>

lemma HasPrefix_prefix: "HasPrefix s p \<longleftrightarrow> prefix p s"
  by (auto simp: HasPrefix_def prefix_def) (metis append_eq_conv_conj)


text \<open>
  Claim C4. The workdir filter passes a workDir exactly when the filter is empty, or the
  workDir equals the filter, or the filter followed by the path separator is a prefix of
  the workDir; with the filter \<open>/tmp/gt\<close>, \<open>/tmp/gt\<close> and \<open>/tmp/gt/work\<close> pass and
  \<open>/tmp/gt-other\<close> does not.
\<close>

theorem workdir_filter_rule:
  "(passesWorkDirFilter workDirFilter workDir \<longleftrightarrow>
      workDirFilter = [] \<or> workDir = workDirFilter \<or> prefix (workDirFilter @ ''/'') workDir) \<and>
   passesWorkDirFilter ''/tmp/gt'' ''/tmp/gt'' \<and>
   passesWorkDirFilter ''/tmp/gt'' ''/tmp/gt/work'' \<and>
   \<not> passesWorkDirFilter ''/tmp/gt'' ''/tmp/gt-other''"
proof -
  have "passesWorkDirFilter workDirFilter workDir \<longleftrightarrow>
      workDirFilter = [] \<or> workDir = workDirFilter \<or> prefix (workDirFilter @ ''/'') workDir"
    by (simp add: passesWorkDirFilter_def HasPrefix_prefix)
  moreover have "passesWorkDirFilter ''/tmp/gt'' ''/tmp/gt''"
    by (simp add: passesWorkDirFilter_def)
  moreover have "passesWorkDirFilter ''/tmp/gt'' ''/tmp/gt/work''"
    by (simp add: passesWorkDirFilter_def HasPrefix_def)
  moreover have "\<not> passesWorkDirFilter ''/tmp/gt'' ''/tmp/gt-other''"
    by (simp add: passesWorkDirFilter_def HasPrefix_def)
  ultimately show ?thesis by blast
qed

text \<open>
  Claim C5, as stated, fails: "no alternate screen" is none of the three errors of the
  claim, and \<open>CapturePaneVisible\<close> does not return it to the caller: it falls back to the
  plain capture and returns what that capture gives.
\<close>

theorem no_alternate_screen_counterexample:
  "NoAlternateScreen \<noteq> SessionOrPaneNotFound \<and> NoAlternateScreen \<noteq> UnknownVariable \<and>
   NoAlternateScreen \<noteq> NothingToCapture \<and>
   CapturePaneVisible (Inl NoAlternateScreen) (Inr ''visible-screen'') = Inr ''visible-screen''"
  by (simp add: CapturePaneVisible_def)

text \<open>
  Claim C5, amended. \<open>HasSession\<close> turns the error "session/pane not found" into the
  result false, \<open>ShowEnvironment\<close> turns "unknown variable" into the empty string and
  \<open>CapturePaneHistory\<close> turns "nothing to capture" into the empty string, each with no
  error; \<open>CapturePaneVisible\<close> answers "no alternate screen" from its alternate-screen
  capture with the result of the plain capture; every other error of the multiplexer
  is returned as it is, by these four wrappers and by every other wrapper.
\<close>

theorem soft_errors_swallowed:
  "HasSession (Inl SessionOrPaneNotFound) = Inr False \<and>
   ShowEnvironment (Inl UnknownVariable) = Inr [] \<and>
   CapturePaneHistory (Inl NothingToCapture) = Inr [] \<and>
   (\<forall>e. e \<noteq> SessionOrPaneNotFound \<longrightarrow> HasSession (Inl e) = Inl e) \<and>
   (\<forall>e. e \<noteq> UnknownVariable \<longrightarrow> ShowEnvironment (Inl e) = Inl e) \<and>
   (\<forall>e. e \<noteq> NothingToCapture \<longrightarrow> CapturePaneHistory (Inl e) = Inl e) \<and>
   (\<forall>plainReply. CapturePaneVisible (Inl NoAlternateScreen) plainReply = plainReply) \<and>
   (\<forall>e plainReply. e \<noteq> NoAlternateScreen \<longrightarrow> CapturePaneVisible (Inl e) plainReply = Inl e) \<and>
   (\<forall>e. plainWrapper parse (Inl e) = Inl e)"
proof -
  have a: "e \<noteq> SessionOrPaneNotFound \<Longrightarrow> HasSession (Inl e) = Inl e" for e
    by (cases e) (simp_all add: HasSession_def)
  have b: "e \<noteq> UnknownVariable \<Longrightarrow> ShowEnvironment (Inl e) = Inl e" for e
    by (cases e) (simp_all add: ShowEnvironment_def)
  have c: "e \<noteq> NothingToCapture \<Longrightarrow> CapturePaneHistory (Inl e) = Inl e" for e
    by (cases e) (simp_all add: CapturePaneHistory_def)
  have d: "e \<noteq> NoAlternateScreen \<Longrightarrow> CapturePaneVisible (Inl e) plainReply = Inl e"
    for e plainReply
    by (cases e) (simp_all add: CapturePaneVisible_def)
  show ?thesis
    using a b c d
    by (simp add: HasSession_def ShowEnvironment_def CapturePaneHistory_def
        CapturePaneVisible_def plainWrapper_def)
qed

theorem soft_errors_swallowed_witness:
  "OtherMuxError ''server exited unexpectedly'' \<noteq> SessionOrPaneNotFound \<and>
   HasSession (Inl (OtherMuxError ''server exited unexpectedly'')) =
     Inl (OtherMuxError ''server exited unexpectedly'') \<and>
   SessionOrPaneNotFound \<noteq> UnknownVariable \<and>
   ShowEnvironment (Inl SessionOrPaneNotFound) = Inl SessionOrPaneNotFound \<and>
   SessionOrPaneNotFound \<noteq> NothingToCapture \<and>
   CapturePaneHistory (Inl SessionOrPaneNotFound) = Inl SessionOrPaneNotFound \<and>
   SessionOrPaneNotFound \<noteq> NoAlternateScreen \<and>
   CapturePaneVisible (Inl SessionOrPaneNotFound) (Inr ''visible-screen'') =
     Inl SessionOrPaneNotFound \<and>
   CapturePaneVisible (Inl NoAlternateScreen) (Inl SessionOrPaneNotFound) =
     Inl SessionOrPaneNotFound"
proof -
  note t = soft_errors_swallowed [where parse = "\<lambda>out. out"]
  note r = t [THEN conjunct2, THEN conjunct2, THEN conjunct2]
  note a = r [THEN conjunct1, THEN spec, THEN mp]
  note b = r [THEN conjunct2, THEN conjunct1, THEN spec, THEN mp]
  note c = r [THEN conjunct2, THEN conjunct2, THEN conjunct1, THEN spec, THEN mp]
  note f = r [THEN conjunct2, THEN conjunct2, THEN conjunct2, THEN conjunct1, THEN spec]
  note d = r [THEN conjunct2, THEN conjunct2, THEN conjunct2, THEN conjunct2, THEN conjunct1,
      THEN spec, THEN spec, THEN mp]
  have n1: "OtherMuxError ''server exited unexpectedly'' \<noteq> SessionOrPaneNotFound" by simp
  have n2: "SessionOrPaneNotFound \<noteq> UnknownVariable" by simp
  have n3: "SessionOrPaneNotFound \<noteq> NothingToCapture" by simp
  have n4: "SessionOrPaneNotFound \<noteq> NoAlternateScreen" by simp
  show ?thesis
    by (intro conjI n1 n2 n3 n4 a [OF n1] b [OF n2] c [OF n3] d [OF n4] f)
qed

lemma PassesFilter_iff:
  "PassesFilter name incl excl \<longleftrightarrow>
     (\<forall>re. incl = Some re \<longrightarrow> re name) \<and> (\<forall>re. excl = Some re \<longrightarrow> \<not> re name)"
  by (cases incl; cases excl) (simp_all add: PassesFilter_def)

lemma deliver_sent:
  "cl_sent (deliver countData agentName msg c) =
     cl_sent c @
     (if cl_agentSub c then
        (case countData of None \<Rightarrow> [] | Some d \<Rightarrow> [d]) @
        (if PassesFilter agentName (cl_includeSessionFilter c) (cl_excludeSessionFilter c)
         then [msg] else [])
      else [])"
  by (cases countData) (simp_all add: deliver_def SendText_def Let_def)

lemma deliver_flags:
  "cl_agentSub (deliver countData agentName msg c) = cl_agentSub c \<and>
   cl_includeSessionFilter (deliver countData agentName msg c) = cl_includeSessionFilter c \<and>
   cl_excludeSessionFilter (deliver countData agentName msg c) = cl_excludeSessionFilter c"
  by (cases countData) (simp_all add: deliver_def SendText_def Let_def)

text \<open>
  Claim C6. When the agents-count response cannot be marshalled for an event other than
  agent-updated, the broadcast does nothing. Otherwise every client keeps its
  subscription flag, a client without the flag is sent nothing, and a client with the
  flag is sent first the agents-count message, whatever its filters, unless the event is
  agent-updated, and then the lifecycle message exactly when the agent's name passes its
  filters: it matches the include expression, if there is one, and does not match the
  exclude expression, if there is one.
\<close>

theorem broadcast_rule:
  "(eventType \<noteq> ''agent-updated'' \<and> marshal (srv_count s) = None \<longrightarrow>
      BroadcastToAgentSubscribers marshal agentName eventType msg s = s) \<and>
   (eventType = ''agent-updated'' \<or> marshal (srv_count s) \<noteq> None \<longrightarrow>
      length (srv_clients (BroadcastToAgentSubscribers marshal agentName eventType msg s)) =
        length (srv_clients s) \<and>
      (\<forall>i < length (srv_clients s).
         cl_agentSub (srv_clients (BroadcastToAgentSubscribers marshal agentName eventType msg s) ! i) =
           cl_agentSub (srv_clients s ! i) \<and>
         cl_sent (srv_clients (BroadcastToAgentSubscribers marshal agentName eventType msg s) ! i) =
           cl_sent (srv_clients s ! i) @
           (if cl_agentSub (srv_clients s ! i) then
              (if eventType \<noteq> ''agent-updated'' then [the (marshal (srv_count s))] else []) @
              (if PassesFilter agentName (cl_includeSessionFilter (srv_clients s ! i))
                    (cl_excludeSessionFilter (srv_clients s ! i))
               then [msg] else [])
            else []))) \<and>
   (\<forall>incl excl.
      PassesFilter agentName incl excl \<longleftrightarrow>
        (\<forall>re. incl = Some re \<longrightarrow> re agentName) \<and> (\<forall>re. excl = Some re \<longrightarrow> \<not> re agentName))"
proof (intro conjI impI allI)
  assume "eventType \<noteq> ''agent-updated'' \<and> marshal (srv_count s) = None"
  then show "BroadcastToAgentSubscribers marshal agentName eventType msg s = s"
    by (simp add: BroadcastToAgentSubscribers_def)
next
  assume "eventType = ''agent-updated'' \<or> marshal (srv_count s) \<noteq> None"
  then show "length (srv_clients (BroadcastToAgentSubscribers marshal agentName eventType msg s)) =
        length (srv_clients s)"
    by (auto simp: BroadcastToAgentSubscribers_def)
next
  fix i
  assume h: "eventType = ''agent-updated'' \<or> marshal (srv_count s) \<noteq> None"
    and i: "i < length (srv_clients s)"
  show "cl_agentSub (srv_clients (BroadcastToAgentSubscribers marshal agentName eventType msg s) ! i) =
           cl_agentSub (srv_clients s ! i)"
    using h i by (auto simp: BroadcastToAgentSubscribers_def deliver_flags)
  show "cl_sent (srv_clients (BroadcastToAgentSubscribers marshal agentName eventType msg s) ! i) =
           cl_sent (srv_clients s ! i) @
           (if cl_agentSub (srv_clients s ! i) then
              (if eventType \<noteq> ''agent-updated'' then [the (marshal (srv_count s))] else []) @
              (if PassesFilter agentName (cl_includeSessionFilter (srv_clients s ! i))
                    (cl_excludeSessionFilter (srv_clients s ! i))
               then [msg] else [])
            else [])"
    using h i by (auto simp: BroadcastToAgentSubscribers_def deliver_sent)
next
  fix incl excl
  show "PassesFilter agentName incl excl \<longleftrightarrow>
        (\<forall>re. incl = Some re \<longrightarrow> re agentName) \<and> (\<forall>re. excl = Some re \<longrightarrow> \<not> re agentName)"
    by (rule PassesFilter_iff)
qed

theorem broadcast_rule_witness:
  "(''agent-added'' = ''agent-updated'' \<or> exampleMarshal (srv_count exampleServer) \<noteq> None) \<and>
   (2::nat) < length (srv_clients exampleServer) \<and>
   cl_sent (srv_clients
     (BroadcastToAgentSubscribers exampleMarshal ''gt-x'' ''agent-added'' ''added'' exampleServer) ! 0) = [] \<and>
   cl_sent (srv_clients
     (BroadcastToAgentSubscribers exampleMarshal ''gt-x'' ''agent-added'' ''added'' exampleServer) ! 1) =
     [''agents-count 3''] \<and>
   cl_sent (srv_clients
     (BroadcastToAgentSubscribers exampleMarshal ''gt-x'' ''agent-added'' ''added'' exampleServer) ! 2) =
     [''agents-count 3'', ''added''] \<and>
   cl_sent (srv_clients
     (BroadcastToAgentSubscribers exampleMarshal ''gt-x'' ''agent-updated'' ''updated'' exampleServer) ! 2) =
     [''updated''] \<and>
   cl_sent (srv_clients
     (BroadcastToAgentSubscribers exampleMarshal ''gt-x'' ''agent-updated'' ''updated'' exampleServer) ! 1) = [] \<and>
   BroadcastToAgentSubscribers (\<lambda>n. None) ''gt-x'' ''agent-added'' ''added'' exampleServer =
     exampleServer"
proof -
  note ta = broadcast_rule [of "''agent-added''" exampleMarshal exampleServer "''gt-x''" "''added''"]
  note tu = broadcast_rule [of "''agent-updated''" exampleMarshal exampleServer "''gt-x''" "''updated''"]
  have ha: "''agent-added'' = ''agent-updated'' \<or> exampleMarshal (srv_count exampleServer) \<noteq> None"
    by (simp add: exampleMarshal_def)
  have hu: "''agent-updated'' = ''agent-updated'' \<or> exampleMarshal (srv_count exampleServer) \<noteq> None"
    by simp
  have len: "(2::nat) < length (srv_clients exampleServer)" "(1::nat) < length (srv_clients exampleServer)"
    "(0::nat) < length (srv_clients exampleServer)"
    by (simp_all add: exampleServer_def)
  have m: "the (exampleMarshal (srv_count exampleServer)) = ''agents-count 3''"
    by code_simp
  have c0: "\<not> cl_agentSub (srv_clients exampleServer ! 0)" "cl_sent (srv_clients exampleServer ! 0) = []"
    by (simp_all add: exampleServer_def)
  have c1: "cl_agentSub (srv_clients exampleServer ! 1)" "cl_sent (srv_clients exampleServer ! 1) = []"
    "\<not> PassesFilter ''gt-x'' (cl_includeSessionFilter (srv_clients exampleServer ! 1))
       (cl_excludeSessionFilter (srv_clients exampleServer ! 1))"
    by (simp_all add: exampleServer_def PassesFilter_def)
  have c2: "cl_agentSub (srv_clients exampleServer ! 2)" "cl_sent (srv_clients exampleServer ! 2) = []"
    "PassesFilter ''gt-x'' (cl_includeSessionFilter (srv_clients exampleServer ! 2))
       (cl_excludeSessionFilter (srv_clients exampleServer ! 2))"
    by (simp_all add: exampleServer_def PassesFilter_def)
  note pa = ta [THEN conjunct2, THEN conjunct1, THEN mp, OF ha, THEN conjunct2, THEN spec, THEN mp]
  note pu = tu [THEN conjunct2, THEN conjunct1, THEN mp, OF hu, THEN conjunct2, THEN spec, THEN mp]
  have a0: "cl_sent (srv_clients
     (BroadcastToAgentSubscribers exampleMarshal ''gt-x'' ''agent-added'' ''added'' exampleServer) ! 0) = []"
    using pa [OF len(3)] c0 by simp
  have a1: "cl_sent (srv_clients
     (BroadcastToAgentSubscribers exampleMarshal ''gt-x'' ''agent-added'' ''added'' exampleServer) ! 1) =
     [''agents-count 3'']"
    using pa [OF len(2)] c1 m by simp
  have a2: "cl_sent (srv_clients
     (BroadcastToAgentSubscribers exampleMarshal ''gt-x'' ''agent-added'' ''added'' exampleServer) ! 2) =
     [''agents-count 3'', ''added'']"
    using pa [OF len(1)] c2 m by simp
  have u2: "cl_sent (srv_clients
     (BroadcastToAgentSubscribers exampleMarshal ''gt-x'' ''agent-updated'' ''updated'' exampleServer) ! 2) =
     [''updated'']"
    using pu [OF len(1)] c2 by simp
  have u1: "cl_sent (srv_clients
     (BroadcastToAgentSubscribers exampleMarshal ''gt-x'' ''agent-updated'' ''updated'' exampleServer) ! 1) = []"
    using pu [OF len(2)] c1 by simp
  have f: "BroadcastToAgentSubscribers (\<lambda>n. None) ''gt-x'' ''agent-added'' ''added'' exampleServer =
       exampleServer"
    using broadcast_rule [of "''agent-added''" "\<lambda>n. None" exampleServer "''gt-x''" "''added''",
        THEN conjunct1]
    by simp
  show ?thesis
    by (intro conjI ha len(1) a0 a1 a2 u2 u1 f)
qed

text \<open>
  Claim C9. The command line of the adapter has no flag \<open>work-dir\<close>: the name is rejected
  as not defined. The workdir flag it has is \<open>gt-dir\<close>, whose default is the directory
  \<open>gt\<close> under the home directory and not the empty string. The sibling command
  tmux-converter has \<open>work-dir\<close> with the empty default.
\<close>

theorem main_flags_lack_work_dir:
  "lookupFlag (mainFlags gtDirDefault) ''work-dir'' = Inl (FlagNotDefined ''work-dir'') \<and>
   lookupFlag (mainFlags gtDirDefault) ''gt-dir'' = Inr gtDirDefault \<and>
   lookupFlag converterFlags ''work-dir'' = Inr []"
  by (simp add: lookupFlag_def mainFlags_def converterFlags_def)

text \<open>
  Claim C7, as stated, fails: for an upload of type \<open>image/png\<close> the payload is not the
  absolute saved path; it is that path followed by a space.
\<close>

theorem image_path_counterexample:
  "BuildPastePayload [''text/plain''] ''/srv/agent/.tmux-adapter/uploads/data.bin''
     ''./.tmux-adapter/uploads/data.bin'' ''image/png'' [0x89, 0x50, 0x4E, 0x47] \<noteq>
     bytes_of ''/srv/agent/.tmux-adapter/uploads/data.bin'' \<and>
   BuildPastePayload [''text/plain''] ''/srv/agent/.tmux-adapter/uploads/data.bin''
     ''./.tmux-adapter/uploads/data.bin'' ''image/png'' [0x89, 0x50, 0x4E, 0x47] =
     bytes_of ''/srv/agent/.tmux-adapter/uploads/data.bin ''"
  by (simp add: BuildPastePayload_def HasPrefix_def bytes_of_def)

text \<open>
  Claim C7, amended. The paste payload of an uploaded file is: for a MIME type with the
  prefix \<open>image/\<close>, the absolute saved path and a space; otherwise, for text-like content
  (the MIME type is a recognized text type, or the bytes are UTF-8-clean) of at most
  256 KiB, the bytes of the file; otherwise the path \<open>./relative\<close> and a space when the
  saved path lies inside the workDir, else the absolute saved path and a space.
\<close>

theorem paste_payload_rule:
  "BuildPastePayload textMimes savedPath (pastePathFor workDir savedPath) mimeType data =
     (if prefix ''image/'' mimeType then bytes_of (savedPath @ '' '')
      else if (mimeType \<in> set textMimes \<or> IsUTF8Text data) \<and> length data \<le> 262144 then data
      else if workDir \<noteq> [] \<and> prefix (workDir @ ''/'') savedPath
        then bytes_of (''./'' @ drop (Suc (length workDir)) savedPath @ '' '')
      else bytes_of (savedPath @ '' ''))"
  by (simp add: BuildPastePayload_def pastePathFor_def BuildServerPastePath_def insideWorkDir_def
      IsTextLike_def maxInlinePasteBytes_def HasPrefix_prefix)

end
